theory Spec2Isabelle
  imports Complex_Main "HOL-Library.Log_Nat"
begin

section \<open>Python values, errors and the decoded records\<close>

text \<open>
  The values that travel through \<^verbatim>\<open>dbus-mppsolar.py\<close>: the decoded JSON records of the
  inverter and the items of the two D-Bus services hold \<^verbatim>\<open>None\<close>, integers, floats and
  strings. A float is represented by the rational number it denotes. In the poll cycle
  the quotients of such values are exact; the command functions, whose arguments are
  numbers, round every float result to binary64 (see \<open>binary64\<close> below).
\<close>

datatype pyval = PNone | PInt int | PFloat rat | PStr string

text \<open>Every exception the modelled code can raise; \<open>DeviceError\<close> is whatever the
  serial transport or the decoder of the \<^verbatim>\<open>mppsolar\<close> package raises.\<close>

datatype error =
  KeyError string | TypeError | ZeroDivisionError | ValueError | OverflowError | DeviceError

type_synonym pydict = "string \<rightharpoonup> pyval"

text \<open>The device: what \<^verbatim>\<open>dev.run_command(command=c)\<close> followed by \<^verbatim>\<open>to_json\<close> gives for
  a protocol and a command, or the exception it raises.\<close>

type_synonym device = "string \<Rightarrow> string \<Rightarrow> error + pydict"

text \<open>What a command function returns: the list of parsed answers, or plain \<^verbatim>\<open>True\<close>.\<close>

datatype reply = Parsed "pydict list" | PyTrue

section \<open>The service object and the serial line\<close>

datatype logmsg = Warning string | Info string | Exception string

record service =
  dbusinverter :: pydict
  dbusmppt :: pydict
  queued_updates :: "(string \<times> pyval) list"
  sent :: "(string \<times> string) list"
  logged :: "logmsg list"
  mainloop_quit :: bool

text \<open>
  \<open>sent\<close> is the trace of the serial line: one pair (protocol, command) for every
  \<^verbatim>\<open>run_command\<close> call, in the order of the calls. \<open>logged\<close> keeps the template of each
  \<^verbatim>\<open>logging\<close> call of the modelled functions (its formatted arguments are not rendered).
\<close>

section \<open>Python's integer formatting and rounding\<close>

text \<open>The decimal digits of a natural number, most significant first.\<close>

fun dec :: "nat \<Rightarrow> string" where
  "dec n = (if n < 10 then [''0123456789'' ! n]
            else dec (n div 10) @ [''0123456789'' ! (n mod 10)])"

declare dec.simps [simp del]

text \<open>\<^verbatim>\<open>'{:d}'.format(n)\<close>\<close>

definition fmt_d :: "int \<Rightarrow> string" where
  "fmt_d n = (if n < 0 then CHR ''-'' # dec (nat (- n)) else dec (nat n))"

text \<open>\<^verbatim>\<open>'{:0wd}'.format(n)\<close>: zeros are filled in after the sign up to width \<open>w\<close>.\<close>

definition fmt_0d :: "nat \<Rightarrow> int \<Rightarrow> string" where
  "fmt_0d w n =
     (if n < 0
      then CHR ''-'' # replicate (w - 1 - length (dec (nat (- n)))) CHR ''0'' @ dec (nat (- n))
      else replicate (w - length (dec (nat n))) CHR ''0'' @ dec (nat n))"

text \<open>\<^verbatim>\<open>round(x)\<close> of Python 3 with one argument: to the nearest integer, a tie to the
  even neighbour.\<close>

definition py_round :: "rat \<Rightarrow> int" where
  "py_round x =
     (let f = \<lfloor>x\<rfloor>; d = x - of_int f
      in if d < 1 / 2 then f else if 1 / 2 < d then f + 1
         else if even f then f else f + 1)"

text \<open>\<^verbatim>\<open>int(x)\<close> on a number: truncation towards zero.\<close>

definition py_int :: "rat \<Rightarrow> int" where
  "py_int x = (if x < 0 then - \<lfloor>- x\<rfloor> else \<lfloor>x\<rfloor>)"

section \<open>Binary64 arithmetic\<close>

text \<open>
  A Python float is an IEEE 754 binary64 number. \<open>ilog2 q\<close> is the exponent of the binade
  of a positive rational, found from the bit lengths of its numerator and denominator.
\<close>

definition ilog2 :: "rat \<Rightarrow> int" where
  "ilog2 q =
     (let (a, b) = quotient_of q; e = bitlen a - bitlen b
      in if 2 powi e \<le> q then e else e - 1)"

text \<open>The spacing of the binary64 numbers around \<open>q\<close>: 53 significant bits, and the
  subnormal spacing below the smallest normal binade.\<close>

definition ulp :: "rat \<Rightarrow> rat" where
  "ulp q = 2 powi (max (ilog2 \<bar>q\<bar>) (- 1022) - 52)"

text \<open>Rounding to the nearest binary64 number, a tie to the even significand; the result
  may still be beyond the largest float.\<close>

definition binary64 :: "rat \<Rightarrow> rat" where
  "binary64 q = (if q = 0 then 0 else of_int (py_round (q / ulp q)) * ulp q)"

text \<open>\<^verbatim>\<open>a / b\<close> on two integers: the correctly rounded quotient, \<^verbatim>\<open>OverflowError\<close> when
  it is too large for a float.\<close>

definition int_truediv :: "int \<Rightarrow> int \<Rightarrow> error + rat" where
  "int_truediv a b =
     (if b = 0 then Inl ZeroDivisionError
      else let r = binary64 (of_int a / of_int b)
           in if 2 powi 1024 \<le> \<bar>r\<bar> then Inl OverflowError else Inr r)"

text \<open>A number handed to a command function: an integer, a finite float, or one of the
  three floats that are not finite.\<close>

datatype pynum = NInt int | NFloat rat | NNan | NPosInf | NNegInf

text \<open>\<^verbatim>\<open>x * 10\<close>: exact on an integer; on a float the product is rounded and overflows to
  an infinity.\<close>

fun times10 :: "pynum \<Rightarrow> pynum" where
  "times10 (NInt n) = NInt (n * 10)"
| "times10 (NFloat x) =
     (let r = binary64 (x * 10)
      in if 2 powi 1024 \<le> r then NPosInf
         else if r \<le> - (2 powi 1024) then NNegInf
         else NFloat r)"
| "times10 NNan = NNan"
| "times10 NPosInf = NPosInf"
| "times10 NNegInf = NNegInf"

text \<open>\<^verbatim>\<open>int(x)\<close>: truncation towards zero; \<^verbatim>\<open>ValueError\<close> on NaN and \<^verbatim>\<open>OverflowError\<close> on
  an infinity.\<close>

fun int_of :: "pynum \<Rightarrow> error + int" where
  "int_of (NInt n) = Inr n"
| "int_of (NFloat x) = Inr (py_int x)"
| "int_of NNan = Inl ValueError"
| "int_of NPosInf = Inl OverflowError"
| "int_of NNegInf = Inl OverflowError"

section \<open>Commands to the inverter\<close>

text \<open>
  \<^verbatim>\<open>runInverterCommands(commands, protocol)\<close> with \<^verbatim>\<open>USE_SYSTEM_MPPSOLAR = False\<close>: the
  list comprehension runs the commands one after the other and the first exception
  ends it.
\<close>

fun run_each :: "device \<Rightarrow> string \<Rightarrow> string list \<Rightarrow> service \<Rightarrow> (error + pydict list) \<times> service" where
  "run_each dev protocol [] s = (Inr [], s)"
| "run_each dev protocol (c # cs) s =
     (let s1 = s\<lparr>sent := sent s @ [(protocol, c)]\<rparr>
      in case dev protocol c of
           Inl e \<Rightarrow> (Inl e, s1)
         | Inr r \<Rightarrow> (case run_each dev protocol cs s1 of
                      (Inl e, s2) \<Rightarrow> (Inl e, s2)
                    | (Inr rs, s2) \<Rightarrow> (Inr (r # rs), s2)))"

definition runInverterCommands ::
  "device \<Rightarrow> string list \<Rightarrow> string \<Rightarrow> service \<Rightarrow> (error + pydict list) \<times> service" where
  "runInverterCommands dev commands protocol s = run_each dev protocol commands s"

text \<open>The setters that pass no protocol on run under the default \<^verbatim>\<open>"PI18"\<close>.\<close>

definition setOutputSource :: "device \<Rightarrow> int \<Rightarrow> service \<Rightarrow> (error + pydict list) \<times> service" where
  "setOutputSource dev source s = runInverterCommands dev [''POP'' @ fmt_0d 2 source] ''PI18'' s"

definition setChargerPriority :: "device \<Rightarrow> int \<Rightarrow> service \<Rightarrow> (error + pydict list) \<times> service" where
  "setChargerPriority dev priority s =
     runInverterCommands dev [''PCP'' @ fmt_0d 2 priority] ''PI18'' s"

text \<open>The result of a command function as a \<open>reply\<close>.\<close>

definition parsed :: "(error + pydict list) \<times> service \<Rightarrow> (error + reply) \<times> service" where
  "parsed r = (case r of (Inl e, s) \<Rightarrow> (Inl e, s) | (Inr rs, s) \<Rightarrow> (Inr (Parsed rs), s))"

text \<open>
  The argument of \<^verbatim>\<open>format\<close> is evaluated before \<^verbatim>\<open>runInverterCommands\<close> is called, so an
  exception of \<^verbatim>\<open>int(voltage*10)\<close> leaves the serial line untouched.
\<close>

definition setMaxChargingVoltage ::
  "device \<Rightarrow> pynum \<Rightarrow> string \<Rightarrow> service \<Rightarrow> (error + reply) \<times> service" where
  "setMaxChargingVoltage dev voltage protocol s =
     (if protocol = ''PI18''
      then (case int_of (times10 voltage) of
              Inl e \<Rightarrow> (Inl e, s)
            | Inr n \<Rightarrow> parsed (runInverterCommands dev
                         [''MCHGV'' @ fmt_d n @ '','' @ fmt_d n] protocol s))
      else (Inr PyTrue, s))"

text \<open>
  The current is a Python integer (\<^verbatim>\<open>'{:03d}'\<close> of the last branch takes nothing else);
  \<^verbatim>\<open>current / 10\<close> is the float quotient and \<^verbatim>\<open>round\<close> rounds that float.
\<close>

definition setMaxChargingCurrent ::
  "device \<Rightarrow> int \<Rightarrow> string \<Rightarrow> service \<Rightarrow> (error + reply) \<times> service" where
  "setMaxChargingCurrent dev current protocol s =
     (case int_truediv current 10 of
        Inl e \<Rightarrow> (Inl e, s)
      | Inr q \<Rightarrow>
          (let roundedCurrent = py_round q * 10
           in if protocol = ''PI18''
              then parsed (runInverterCommands dev [''MCHGC0'' @ fmt_0d 4 roundedCurrent] protocol s)
              else parsed (runInverterCommands dev [''MNCHGC0'' @ fmt_0d 4 roundedCurrent] protocol s)))"

definition setMaxUtilityChargingCurrent ::
  "device \<Rightarrow> int \<Rightarrow> string \<Rightarrow> service \<Rightarrow> (error + reply) \<times> service" where
  "setMaxUtilityChargingCurrent dev current protocol s =
     (case int_truediv current 10 of
        Inl e \<Rightarrow> (Inl e, s)
      | Inr q \<Rightarrow>
          (let roundedCurrent = max 2 (py_round q * 10)
           in if protocol = ''PI18''
              then parsed (runInverterCommands dev [''MUCHGC0'' @ fmt_0d 4 roundedCurrent] protocol s)
              else parsed (runInverterCommands dev [''MUCHGC'' @ fmt_0d 3 current] ''PI18'' s)))"

section \<open>Operators of Python on the values\<close>

text \<open>\<^verbatim>\<open>a == b\<close>: numbers compare by value across int and float, anything else only
  with its own kind.\<close>

fun py_eq :: "pyval \<Rightarrow> pyval \<Rightarrow> bool" where
  "py_eq PNone PNone = True"
| "py_eq (PInt a) (PInt b) = (a = b)"
| "py_eq (PInt a) (PFloat b) = (of_int a = b)"
| "py_eq (PFloat a) (PInt b) = (a = of_int b)"
| "py_eq (PFloat a) (PFloat b) = (a = b)"
| "py_eq (PStr a) (PStr b) = (a = b)"
| "py_eq _ _ = False"

definition py_ne :: "pyval \<Rightarrow> pyval \<Rightarrow> bool" where
  "py_ne a b = (\<not> py_eq a b)"

text \<open>\<^verbatim>\<open>a & b\<close> is defined on two integers only.\<close>

fun py_and :: "pyval \<Rightarrow> pyval \<Rightarrow> error + pyval" where
  "py_and (PInt a) (PInt b) = Inr (PInt (and a b))"
| "py_and _ _ = Inl TypeError"

fun num_of :: "pyval \<Rightarrow> rat option" where
  "num_of (PInt a) = Some (of_int a)"
| "num_of (PFloat a) = Some a"
| "num_of _ = None"

text \<open>\<^verbatim>\<open>a / b\<close>: true division, always a float.\<close>

definition py_truediv :: "pyval \<Rightarrow> pyval \<Rightarrow> error + pyval" where
  "py_truediv a b =
     (case (num_of a, num_of b) of
        (Some x, Some y) \<Rightarrow> if y = 0 then Inl ZeroDivisionError else Inr (PFloat (x / y))
      | _ \<Rightarrow> Inl TypeError)"

text \<open>\<^verbatim>\<open>a > n\<close> for an integer literal \<open>n\<close>: a string or \<^verbatim>\<open>None\<close> on the left raises.\<close>

definition py_gt_int :: "pyval \<Rightarrow> int \<Rightarrow> error + bool" where
  "py_gt_int a n = (case num_of a of Some x \<Rightarrow> Inr (of_int n < x) | None \<Rightarrow> Inl TypeError)"

text \<open>\<^verbatim>\<open>d.get(k, default)\<close> and \<^verbatim>\<open>d.get(k)\<close>.\<close>

definition dict_get :: "pydict \<Rightarrow> string \<Rightarrow> pyval \<Rightarrow> pyval" where
  "dict_get d k dflt = (case d k of None \<Rightarrow> dflt | Some v \<Rightarrow> v)"

definition dict_get_none :: "pydict \<Rightarrow> string \<Rightarrow> pyval" where
  "dict_get_none d k = dict_get d k PNone"

section \<open>Items of a D-Bus service\<close>

text \<open>
  \<^verbatim>\<open>VeDbusService\<close> of the \<^verbatim>\<open>velib_python\<close> library keeps one object per added path.
  Reading or writing \<^verbatim>\<open>service[path]\<close>, also through the context of a \<^verbatim>\<open>with\<close> block,
  looks the object up in that dictionary, so a path that was never added raises
  \<^verbatim>\<open>KeyError\<close>. A write stores the value at once; leaving the \<^verbatim>\<open>with\<close> block only sends
  the change signal, which is not modelled.
\<close>

definition getitem :: "pydict \<Rightarrow> string \<Rightarrow> error + pyval" where
  "getitem d path = (case d path of None \<Rightarrow> Inl (KeyError path) | Some v \<Rightarrow> Inr v)"

definition setitem :: "pydict \<Rightarrow> string \<Rightarrow> pyval \<Rightarrow> error + pydict" where
  "setitem d path v = (case d path of None \<Rightarrow> Inl (KeyError path) | Some _ \<Rightarrow> Inr (d(path \<mapsto> v)))"

section \<open>Statements that may raise\<close>

text \<open>A statement takes the service object and gives back either an exception or a value,
  together with the service object as the statement left it.\<close>

type_synonym 'a stmt = "service \<Rightarrow> (error + 'a) \<times> service"

definition ret :: "'a \<Rightarrow> 'a stmt" where
  "ret x s = (Inr x, s)"

definition lift :: "error + 'a \<Rightarrow> 'a stmt" where
  "lift r s = (r, s)"

definition bnd :: "'a stmt \<Rightarrow> ('a \<Rightarrow> 'b stmt) \<Rightarrow> 'b stmt" where
  "bnd m f s = (case m s of (Inl e, s1) \<Rightarrow> (Inl e, s1) | (Inr x, s1) \<Rightarrow> f x s1)"

text \<open>\<^verbatim>\<open>try: m  except: h\<close> with a bare \<^verbatim>\<open>except\<close>.\<close>

definition try_except :: "'a stmt \<Rightarrow> 'a stmt \<Rightarrow> 'a stmt" where
  "try_except m h s = (case m s of (Inl e, s1) \<Rightarrow> h s1 | (Inr x, s1) \<Rightarrow> (Inr x, s1))"

definition logging :: "logmsg \<Rightarrow> unit stmt" where
  "logging msg s = (Inr (), s\<lparr>logged := logged s @ [msg]\<rparr>)"

definition quit :: "unit stmt" where
  "quit s = (Inr (), s\<lparr>mainloop_quit := True\<rparr>)"

definition inv_get :: "string \<Rightarrow> pyval stmt" where
  "inv_get path s = (getitem (dbusinverter s) path, s)"

definition inv_set :: "string \<Rightarrow> pyval \<Rightarrow> unit stmt" where
  "inv_set path v s =
     (case setitem (dbusinverter s) path v of
        Inl e \<Rightarrow> (Inl e, s) | Inr d \<Rightarrow> (Inr (), s\<lparr>dbusinverter := d\<rparr>))"

definition mppt_get :: "string \<Rightarrow> pyval stmt" where
  "mppt_get path s = (getitem (dbusmppt s) path, s)"

definition mppt_set :: "string \<Rightarrow> pyval \<Rightarrow> unit stmt" where
  "mppt_set path v s =
     (case setitem (dbusmppt s) path v of
        Inl e \<Rightarrow> (Inl e, s) | Inr d \<Rightarrow> (Inr (), s\<lparr>dbusmppt := d\<rparr>))"

section \<open>The merge point\<close>

text \<open>The loop of \<^verbatim>\<open>_updateInternal\<close> over the queued pairs.\<close>

fun store_queued :: "(string \<times> pyval) list \<Rightarrow> unit stmt" where
  "store_queued [] = ret ()"
| "store_queued ((path, v) # rest) =
     bnd (inv_set path v) (\<lambda>_. bnd (mppt_set path v) (\<lambda>_. store_queued rest))"

definition updateInternal :: "unit stmt" where
  "updateInternal s =
     bnd (store_queued (queued_updates s)) (\<lambda>_ s1. (Inr (), s1\<lparr>queued_updates := []\<rparr>)) s"

section \<open>The poll cycle\<close>

text \<open>\<^verbatim>\<open>service[path] = record.get(key, service[path])\<close>: the old item is read first, as
  the default is an argument of \<^verbatim>\<open>get\<close>.\<close>

definition inv_copy :: "string \<Rightarrow> pydict \<Rightarrow> string \<Rightarrow> unit stmt" where
  "inv_copy path d key = bnd (inv_get path) (\<lambda>old. inv_set path (dict_get d key old))"

definition mppt_copy :: "string \<Rightarrow> pydict \<Rightarrow> string \<Rightarrow> unit stmt" where
  "mppt_copy path d key = bnd (mppt_get path) (\<lambda>old. mppt_set path (dict_get d key old))"

text \<open>\<^verbatim>\<open>m[path] = generated.get('total_generated_energy', m[path]) / 1000\<close>\<close>

definition mppt_yield :: "string \<Rightarrow> pydict \<Rightarrow> unit stmt" where
  "mppt_yield path generated =
     bnd (mppt_get path) (\<lambda>old.
     bnd (lift (py_truediv (dict_get generated ''total_generated_energy'' old) (PInt 1000)))
       (\<lambda>q. mppt_set path q))"

text \<open>
  The guard \<^verbatim>\<open>i['/Ac/Out/L1/V'] != 0 & i['/Ac/Out/L1/P'] != 0\<close>. In Python \<^verbatim>\<open>&\<close> binds
  tighter than \<^verbatim>\<open>!=\<close>, so this is the chained comparison
  \<^verbatim>\<open>V != (0 & P) != 0\<close>, that is \<^verbatim>\<open>V != (0 & P) and (0 & P) != 0\<close> with \<^verbatim>\<open>0 & P\<close>
  evaluated once.
\<close>

definition output_current_guard :: "bool stmt" where
  "output_current_guard =
     bnd (inv_get ''/Ac/Out/L1/V'') (\<lambda>v.
     bnd (inv_get ''/Ac/Out/L1/P'') (\<lambda>p.
     bnd (lift (py_and (PInt 0) p)) (\<lambda>x.
     ret (py_ne v x \<and> py_ne x (PInt 0)))))"

definition set_output_current :: "unit stmt" where
  "set_output_current =
     bnd (inv_get ''/Ac/Out/L1/P'') (\<lambda>p.
     bnd (inv_get ''/Ac/Out/L1/V'') (\<lambda>v.
     bnd (lift (py_truediv p v)) (\<lambda>output_current.
     inv_set ''/Ac/Out/L1/I'' output_current)))"

text \<open>\<^verbatim>\<open>2 if (data.get(k) != None and data.get(k) > 0) else 0\<close>\<close>

definition mpp_operation_mode :: "pydict \<Rightarrow> pyval stmt" where
  "mpp_operation_mode data =
     (if py_ne (dict_get_none data ''pv1_input_power'') PNone
      then bnd (lift (py_gt_int (dict_get_none data ''pv1_input_power'') 0))
             (\<lambda>b. ret (if b then PInt 2 else PInt 0))
      else ret (PInt 0))"

text \<open>
  The body of \<^verbatim>\<open>_update_PI18\<close> after the four records are unpacked, in the four blocks
  its comments mark off. First the run state from the working mode.
\<close>

definition inverter_state :: "pydict \<Rightarrow> unit stmt" where
  "inverter_state mode =
     bnd (inv_get ''/State'') (\<lambda>old.
     inv_set ''/State''
       (let invMode = dict_get mode ''working_mode'' old
        in if py_eq invMode (PStr ''Battery mode'') then PInt 9
           else if py_eq invMode (PStr ''Fault mode'') then PInt 2
           else PInt 0))"

text \<open>``Normal operation, read data'': battery voltage into both trees, the AC output
  and the derived current.\<close>

definition read_data :: "pydict \<Rightarrow> unit stmt" where
  "read_data data =
     bnd (inv_copy ''/Dc/0/Voltage'' data ''battery_voltage'') (\<lambda>_.
     bnd (mppt_copy ''/Dc/0/Voltage'' data ''battery_voltage'') (\<lambda>_.
     bnd (inv_copy ''/Ac/Out/L1/V'' data ''ac_output_voltage'') (\<lambda>_.
     bnd (inv_copy ''/Ac/Out/L1/P'' data ''ac_output_active_power'') (\<lambda>_.
     bnd output_current_guard (\<lambda>g.
     if g then set_output_current else ret ())))))"

text \<open>``Solar charger''.\<close>

definition solar_charger :: "pydict \<Rightarrow> pydict \<Rightarrow> unit stmt" where
  "solar_charger generated data =
     bnd (lift (py_gt_int (dict_get data ''pv1_input_power'' (PInt 0)) 0)) (\<lambda>pv.
     bnd (mppt_set ''/State'' (if pv then PInt 3 else PInt 0)) (\<lambda>_.
     bnd (mppt_copy ''/Pv/V'' data ''pv1_input_voltage'') (\<lambda>_.
     bnd (mppt_copy ''/Yield/Power'' data ''pv1_input_power'') (\<lambda>_.
     bnd (mppt_yield ''/Yield/User'' generated) (\<lambda>_.
     bnd (mppt_yield ''/Yield/System'' generated) (\<lambda>_.
     bnd (mpp_operation_mode data) (\<lambda>mode2.
     mppt_set ''/MppOperationMode'' mode2)))))))"

text \<open>``Misc'': the two temperatures.\<close>

definition misc :: "pydict \<Rightarrow> unit stmt" where
  "misc data =
     bnd (inv_copy ''/Temperature'' data ''inverter_heat_sink_temperature'') (\<lambda>_.
     mppt_copy ''/DC/0/Temperature'' data ''mppt1_charger_temperature'')"

text \<open>The blocks in order, then ``execute updates of previously updated values''.\<close>

definition merge_PI18 :: "pydict \<Rightarrow> pydict \<Rightarrow> pydict \<Rightarrow> pydict \<Rightarrow> bool stmt" where
  "merge_PI18 generated data mode rated =
     bnd (inverter_state mode) (\<lambda>_.
     bnd (read_data data) (\<lambda>_.
     bnd (solar_charger generated data) (\<lambda>_.
     bnd (misc data) (\<lambda>_.
     bnd updateInternal (\<lambda>_.
     ret True)))))"

text \<open>\<^verbatim>\<open>generated, data, mode, rated = raw\<close> raises \<^verbatim>\<open>ValueError\<close> unless there are four.\<close>

fun unpack4 :: "pydict list \<Rightarrow> bool stmt" where
  "unpack4 [generated, data, mode, rated] = merge_PI18 generated data mode rated"
| "unpack4 _ = lift (Inl ValueError)"

definition update_PI18 :: "device \<Rightarrow> bool stmt" where
  "update_PI18 dev s =
     (case runInverterCommands dev [''ET'', ''GS'', ''MOD'', ''PIRI''] ''PI18'' s of
        (Inl e, s1) \<Rightarrow>
          bnd (logging (Warning ''Error in update PI18 loop.'')) (\<lambda>_.
          bnd updateInternal (\<lambda>_. ret True)) s1
      | (Inr raw, s1) \<Rightarrow> unpack4 raw s1)"

definition update :: "device \<Rightarrow> bool stmt" where
  "update dev =
     bnd (logging (Info ''{} updating'')) (\<lambda>_.
     try_except (update_PI18 dev)
       (bnd (logging (Exception ''Error in update loop'')) (\<lambda>_.
        bnd updateInternal (\<lambda>_. ret True))))"

section \<open>Writes to a control path\<close>

text \<open>One branch of the \<^verbatim>\<open>/Mode\<close> chain: both setters are arguments of \<^verbatim>\<open>format\<close>, called
  from left to right before the message is logged.\<close>

definition set_mode :: "device \<Rightarrow> int \<Rightarrow> int \<Rightarrow> string \<Rightarrow> unit stmt" where
  "set_mode dev priority source msg =
     bnd (setChargerPriority dev priority) (\<lambda>_.
     bnd (setOutputSource dev source) (\<lambda>_.
     logging (Warning msg)))"

text \<open>The \<^verbatim>\<open>if\<close> chain on the value written to \<^verbatim>\<open>/Mode\<close>.\<close>

definition mode_branch :: "device \<Rightarrow> pyval \<Rightarrow> unit stmt" where
  "mode_branch dev v =
     (if py_eq v (PInt 1)
      then set_mode dev 1 1 ''setting mode to 'Charger Only'(Charger=Util) ({})''
      else if py_eq v (PInt 2)
      then set_mode dev 0 2 ''setting mode to 'Inverter Only'(Charger=Solar & Output=SBU) ({},{})''
      else if py_eq v (PInt 3)
      then set_mode dev 1 2 ''setting mode to 'ON=Charge+Invert'(Charger=Util & Output=SBU) ({},{})''
      else if py_eq v (PInt 4)
      then set_mode dev 3 2 ''setting mode to 'OFF'(Charger=Solar) ({})''
      else logging (Warning ''setting mode not understood ({})''))"

definition change_PI18 :: "device \<Rightarrow> string \<Rightarrow> pyval \<Rightarrow> bool stmt" where
  "change_PI18 dev path v =
     bnd (if path = ''/Link'' then logging (Warning ''{} : {}'') else ret ()) (\<lambda>_.
     bnd (if path = ''/Link/ChargeCurrent'' then logging (Warning ''/Link/ChargeCurrent : {}'')
          else ret ()) (\<lambda>_.
     bnd (if path = ''/Link/ChargeCurrent'' then logging (Warning ''/Link/ChargeCurrent : {}'')
          else ret ()) (\<lambda>_.
     bnd (if path = ''/Mode''
          then bnd (mode_branch dev v)
                 (\<lambda>_ s. (Inr (), s\<lparr>queued_updates := queued_updates s @ [(path, v)]\<rparr>))
          else ret ()) (\<lambda>_.
     ret True))))"

text \<open>\<^verbatim>\<open>_change\<close>: the bare \<^verbatim>\<open>exit\<close> after \<^verbatim>\<open>mainloop.quit()\<close> is a name, not a call, so the
  reset path goes on into \<^verbatim>\<open>_change_PI18\<close> as every other path does.\<close>

definition change :: "device \<Rightarrow> string \<Rightarrow> pyval \<Rightarrow> bool stmt" where
  "change dev path v =
     bnd (logging (Warning ''updated %s to %s'')) (\<lambda>_.
     bnd (if path = ''/Settings/Reset''
          then bnd (logging (Info ''Restarting!'')) (\<lambda>_. quit) else ret ()) (\<lambda>_.
     try_except (change_PI18 dev path v)
       (bnd (logging (Exception ''Error in change loop'')) (\<lambda>_.
        bnd quit (\<lambda>_. ret False)))))"

section \<open>The service object after construction\<close>

text \<open>\<^verbatim>\<open>setupInverterDefaultPaths\<close> and \<^verbatim>\<open>setupChargerDefaultPaths\<close> add the same paths;
  \<open>file\<close> is \<^verbatim>\<open>__file__\<close> and \<open>python\<close> is \<^verbatim>\<open>platform.python_version()\<close>.\<close>

definition setupDefaultPaths ::
  "string \<Rightarrow> string \<Rightarrow> string \<Rightarrow> int \<Rightarrow> string \<Rightarrow> (string \<times> pyval) list" where
  "setupDefaultPaths file python connection deviceinstance productname =
     [(''/Mgmt/ProcessName'', PStr file),
      (''/Mgmt/ProcessVersion'', PStr (''version f{VERSION}, and running on Python '' @ python)),
      (''/Mgmt/Connection'', PStr connection),
      (''/DeviceInstance'', PInt deviceinstance),
      (''/ProductId'', PNone),
      (''/ProductName'', PStr productname),
      (''/FirmwareVersion'', PNone),
      (''/HardwareVersion'', PNone),
      (''/Connected'', PInt 1),
      (''/Settings/Reset'', PNone),
      (''/Settings/Charger'', PNone),
      (''/Settings/Output'', PNone)]"

definition inverter_paths :: "(string \<times> pyval) list" where
  "inverter_paths =
     [(''/Dc/0/Voltage'', PInt 0),
      (''/Ac/Out/L1/V'', PInt 0),
      (''/Ac/Out/L1/I'', PInt 0),
      (''/Ac/Out/L1/P'', PInt 0),
      (''/Mode'', PInt 0),
      (''/State'', PInt 0),
      (''/Temperature'', PInt 123)]"

definition charger_paths :: "(string \<times> pyval) list" where
  "charger_paths =
     [(''/NrOfTrackers'', PInt 1),
      (''/Pv/V'', PInt 0),
      (''/Yield/Power'', PInt 0),
      (''/DC/0/Temperature'', PInt 123),
      (''/Dc/0/Voltage'', PInt 0),
      (''/Dc/0/Current'', PInt 0),
      (''/Link/NetworkMode'', PInt 1),
      (''/Link/BatteryCurrent'', PInt 0),
      (''/Link/ChargeCurrent'', PInt 0),
      (''/Link/ChargeVoltage'', PInt 0),
      (''/Link/NetworkStatus'', PInt 4),
      (''/Link/TemperatureSense'', PInt 0),
      (''/Link/TemperatureSenseActive'', PInt 0),
      (''/Link/VoltageSense'', PInt 0),
      (''/Link/VoltageSenseActive'', PInt 0),
      (''/Settings/BmsPresent'', PNone),
      (''/Settings/ChargeCurrentLimit'', PInt 80),
      (''/Yield/User'', PInt 0),
      (''/Yield/System'', PInt 0),
      (''/ErrorCode'', PInt 0),
      (''/State'', PInt 0),
      (''/Mode'', PInt 0),
      (''/MppOperationMode'', PInt 0),
      (''/Relay/0/State'', PNone)]"

text \<open>The object right after \<^verbatim>\<open>__init__\<close> has added its paths, with the defaults of
  \<^verbatim>\<open>__init__\<close> and \<^verbatim>\<open>main\<close> (device instance 0, product name \<^verbatim>\<open>MPPSolar\<close>); the trace of
  the serial line and the log are counted from this point.\<close>

definition created :: service where
  "created =
     \<lparr>dbusinverter = map_of (setupDefaultPaths ''dbus-mppsolar.py'' ''3'' ''MPPSolar interface'' 0
                                ''Inverter MPPSolar'' @ inverter_paths),
      dbusmppt = map_of (setupDefaultPaths ''dbus-mppsolar.py'' ''3'' ''MPPSolar interface'' 0
                            ''Charger MPPSolar'' @ charger_paths),
      queued_updates = [],
      sent = [],
      logged = [],
      mainloop_quit = False\<rparr>"

section \<open>The wording of the specification, for comparison\<close>

text \<open>The value of a decimal digit and of a string of digits.\<close>

definition digit_val :: "char \<Rightarrow> nat" where
  "digit_val ch = of_char ch - 48"

definition read_dec :: "string \<Rightarrow> nat" where
  "read_dec t = foldl (\<lambda>a ch. 10 * a + digit_val ch) 0 t"

text \<open>``Rounded to the nearest multiple of 10'', a tie going to the multiple of 10 whose
  tens are even, in integer arithmetic.\<close>

definition roundCurrent :: "int \<Rightarrow> int" where
  "roundCurrent c =
     (let q = c div 10; r = c mod 10
      in if r < 5 then 10 * q else if 5 < r then 10 * (q + 1)
         else if even q then 10 * q else 10 * (q + 1))"

text \<open>The inverter run-state code of a working mode.\<close>

definition run_state :: "pyval \<Rightarrow> int" where
  "run_state w = (if w = PStr ''Battery mode'' then 9 else if w = PStr ''Fault mode'' then 2 else 0)"


text \<open>Storing queued pairs into one object tree, the later pair winning.\<close>

definition stored :: "(string \<times> pyval) list \<Rightarrow> pydict \<Rightarrow> pydict" where
  "stored q d = fold (\<lambda>(path, v) m. m(path \<mapsto> v)) q d"

text \<open>What a poll cycle that runs to its end stores in the inverter tree, before the
  queued pairs are stored: the five items of \<^verbatim>\<open>_update_PI18\<close> that are assigned on every
  path through it.\<close>

definition polled_inverter :: "pydict \<Rightarrow> pydict \<Rightarrow> pydict \<Rightarrow> pydict" where
  "polled_inverter data mode i =
     i(''/State'' \<mapsto> PInt (run_state (dict_get mode ''working_mode'' (the (i ''/State'')))),
       ''/Dc/0/Voltage'' \<mapsto> dict_get data ''battery_voltage'' (the (i ''/Dc/0/Voltage'')),
       ''/Ac/Out/L1/V'' \<mapsto> dict_get data ''ac_output_voltage'' (the (i ''/Ac/Out/L1/V'')),
       ''/Ac/Out/L1/P'' \<mapsto> dict_get data ''ac_output_active_power'' (the (i ''/Ac/Out/L1/P'')),
       ''/Temperature'' \<mapsto> dict_get data ''inverter_heat_sink_temperature'' (the (i ''/Temperature'')))"

text \<open>The quotient by 1000 of the energy total, or of the old item when the record has no
  total.\<close>

definition yield_kwh :: "pydict \<Rightarrow> pyval \<Rightarrow> pyval" where
  "yield_kwh generated old =
     PFloat (the (num_of (dict_get generated ''total_generated_energy'' old)) / 1000)"

definition pv_positive :: "pyval \<Rightarrow> bool" where
  "pv_positive p = (0 < the (num_of p))"

text \<open>The same for the charger tree.\<close>

definition polled_charger :: "pydict \<Rightarrow> pydict \<Rightarrow> pydict \<Rightarrow> pydict" where
  "polled_charger generated data m =
     m(''/Dc/0/Voltage'' \<mapsto> dict_get data ''battery_voltage'' (the (m ''/Dc/0/Voltage'')),
       ''/State'' \<mapsto> PInt (if pv_positive (dict_get data ''pv1_input_power'' (PInt 0)) then 3 else 0),
       ''/Pv/V'' \<mapsto> dict_get data ''pv1_input_voltage'' (the (m ''/Pv/V'')),
       ''/Yield/Power'' \<mapsto> dict_get data ''pv1_input_power'' (the (m ''/Yield/Power'')),
       ''/Yield/User'' \<mapsto> yield_kwh generated (the (m ''/Yield/User'')),
       ''/Yield/System'' \<mapsto> yield_kwh generated (the (m ''/Yield/System'')),
       ''/MppOperationMode'' \<mapsto>
          PInt (if dict_get_none data ''pv1_input_power'' \<noteq> PNone
                   \<and> pv_positive (dict_get_none data ''pv1_input_power'') then 2 else 0),
       ''/DC/0/Temperature'' \<mapsto> dict_get data ''mppt1_charger_temperature'' (the (m ''/DC/0/Temperature'')))"

text \<open>The decoded records of the end-to-end scenario of the specification, as a device
  that answers every other command with an empty record.\<close>

definition scenario :: device where
  "scenario protocol c =
     (if c = ''ET'' then Inr [''total_generated_energy'' \<mapsto> PInt 15000]
      else if c = ''GS'' then
        Inr [''battery_voltage'' \<mapsto> PFloat (521 / 10),
             ''ac_output_voltage'' \<mapsto> PFloat 230,
             ''ac_output_active_power'' \<mapsto> PInt 500,
             ''pv1_input_power'' \<mapsto> PInt 120,
             ''pv1_input_voltage'' \<mapsto> PInt 60]
      else if c = ''MOD'' then Inr [''working_mode'' \<mapsto> PStr ''Battery mode'']
      else Inr Map.empty)"

text \<open>The same device with one answer replaced, and with one command failing.\<close>

definition answering :: "string \<Rightarrow> pydict \<Rightarrow> device \<Rightarrow> device" where
  "answering c r dev protocol c' = (if c' = c then Inr r else dev protocol c')"

definition failing :: "string \<Rightarrow> device \<Rightarrow> device" where
  "failing c dev protocol c' = (if c' = c then Inl DeviceError else dev protocol c')"

section \<open>Digits, padding and rounding\<close>

lemma digit_nth: "d < 10 \<Longrightarrow> digit_val (''0123456789'' ! d) = d"
proof -
  assume "d < 10"
  then have "d \<in> {0, 1, 2, 3, 4, 5, 6, 7, 8, 9}" by auto
  then show ?thesis by (auto simp add: digit_val_def)
qed

lemma digit_nth_mem: "d < 10 \<Longrightarrow> ''0123456789'' ! d \<in> set ''0123456789''"
  by (rule nth_mem) simp

lemma dec_digits: "set (dec n) \<subseteq> set ''0123456789''"
proof (induction n rule: dec.induct)
  case (1 n)
  show ?case
  proof (cases "n < 10")
    case True
    then show ?thesis using digit_nth_mem [of n] by (subst dec.simps) simp
  next
    case False
    have "n mod 10 < 10" by simp
    then show ?thesis using False 1 digit_nth_mem [of "n mod 10"] by (subst dec.simps) simp
  qed
qed

lemma read_dec_snoc: "read_dec (t @ [ch]) = 10 * read_dec t + digit_val ch"
  by (simp add: read_dec_def)

lemma read_dec_dec: "read_dec (dec n) = n"
proof (induction n rule: dec.induct)
  case (1 n)
  show ?case
  proof (cases "n < 10")
    case True
    then show ?thesis by (subst dec.simps) (simp add: read_dec_def digit_nth)
  next
    case False
    have "n mod 10 < 10" by simp
    then show ?thesis using False 1 by (subst dec.simps) (simp add: read_dec_snoc digit_nth)
  qed
qed

lemma foldl_zeros: "foldl (\<lambda>a ch. 10 * a + digit_val ch) 0 (replicate k CHR ''0'') = 0"
proof (induction k)
  case 0
  show ?case by simp
next
  case (Suc k)
  have "digit_val CHR ''0'' = 0" by (simp add: digit_val_def)
  with Suc show ?case by simp
qed

lemma read_dec_zeros: "read_dec (replicate k CHR ''0'' @ t) = read_dec t"
  by (simp add: read_dec_def foldl_zeros)

lemma dec_length4: "n < 10000 \<Longrightarrow> length (dec n) \<le> 4"
  by (subst dec.simps, simp, subst dec.simps, simp, subst dec.simps, simp, subst dec.simps, simp)

lemma dec_length3: "n < 1000 \<Longrightarrow> length (dec n) \<le> 3"
  by (subst dec.simps, simp, subst dec.simps, simp, subst dec.simps, simp)

lemma dec_nonempty: "0 < length (dec n)"
  by (subst dec.simps) simp

lemma fmt_0d_digits: "0 \<le> n \<Longrightarrow> set (fmt_0d w n) \<subseteq> set ''0123456789''"
  using dec_digits [of "nat n"] by (auto simp add: fmt_0d_def)

lemma fmt_0d_value: "0 \<le> n \<Longrightarrow> int (read_dec (fmt_0d w n)) = n"
  by (simp add: fmt_0d_def read_dec_zeros read_dec_dec)

lemma fmt_0d_length: "0 \<le> n \<Longrightarrow> length (fmt_0d w n) = max w (length (dec (nat n)))"
  by (simp add: fmt_0d_def)

lemma py_round_tenth: "py_round (of_int c / 10) * 10 = roundCurrent c"
proof -
  define q where "q = c div 10"
  define r where "r = c mod 10"
  define x :: rat where "x = of_int c / 10"
  have c: "c = 10 * q + r" by (simp add: q_def r_def)
  have r0: "0 \<le> r" and r10: "r < 10" by (simp_all add: r_def)
  have x: "x = of_int q + of_int r / 10" unfolding x_def by (subst c) simp
  have lo: "(0::rat) \<le> of_int r / 10" using r0 by simp
  have hi: "of_int r / 10 < (1::rat)" using r10 by simp
  have f: "\<lfloor>x\<rfloor> = q"
  proof (rule floor_unique)
    show "of_int q \<le> x" using lo by (simp add: x)
    show "x < of_int q + 1" using hi by (simp add: x)
  qed
  have d: "x - of_int q = of_int r / 10" by (simp add: x)
  have lt: "(of_int r / 10 < (1 / 2 :: rat)) = (r < 5)"
  proof -
    have "(of_int r / 10 < (1 / 2 :: rat)) = ((of_int r :: rat) < 5)" by (simp add: field_simps)
    also have "\<dots> = (r < 5)" using of_int_less_iff [of r 5, where ?'a = rat] by simp
    finally show ?thesis .
  qed
  have gt: "((1 / 2 :: rat) < of_int r / 10) = (5 < r)"
  proof -
    have "((1 / 2 :: rat) < of_int r / 10) = ((5 :: rat) < of_int r)" by (simp add: field_simps)
    also have "\<dots> = (5 < r)" using of_int_less_iff [of 5 r, where ?'a = rat] by simp
    finally show ?thesis .
  qed
  have "py_round x * 10 = (if r < 5 then 10 * q else if 5 < r then 10 * (q + 1)
         else if even q then 10 * q else 10 * (q + 1))"
    unfolding py_round_def Let_def f d lt gt by simp
  then show ?thesis unfolding x_def roundCurrent_def Let_def q_def r_def by simp
qed

lemma roundCurrent_nonneg: "0 \<le> c \<Longrightarrow> 0 \<le> roundCurrent c"
  by (simp add: roundCurrent_def Let_def pos_imp_zdiv_nonneg_iff)

lemma roundCurrent_nearest:
  "roundCurrent c mod 10 = 0 \<and> \<bar>roundCurrent c - c\<bar> \<le> 5
   \<and> (\<bar>roundCurrent c - c\<bar> = 5 \<longrightarrow> roundCurrent c mod 20 = 0)"
proof -
  define q where "q = c div 10"
  define r where "r = c mod 10"
  have c: "c = 10 * q + r" by (simp add: q_def r_def)
  have r0: "0 \<le> r" and r10: "r < 10" by (simp_all add: r_def)
  have R: "roundCurrent c = (if r < 5 then 10 * q else if 5 < r then 10 * (q + 1)
         else if even q then 10 * q else 10 * (q + 1))"
    by (simp add: roundCurrent_def Let_def q_def r_def)
  have m10: "(10 * k) mod 10 = 0" for k :: int by simp
  consider (lo) "r < 5" | (hi) "5 < r" | (te) "r = 5" "even q" | (to) "r = 5" "odd q"
    by linarith
  then show ?thesis
  proof cases
    case lo
    then have e: "roundCurrent c = 10 * q" by (simp add: R)
    have d: "\<bar>10 * q - c\<bar> = r" using c r0 by simp
    show ?thesis unfolding e d using lo m10 [of q] by simp
  next
    case hi
    then have e: "roundCurrent c = 10 * (q + 1)" by (simp add: R)
    have d: "\<bar>10 * (q + 1) - c\<bar> = 10 - r" using c r10 by simp
    show ?thesis unfolding e d using hi m10 [of "q + 1"] by simp
  next
    case te
    then have e: "roundCurrent c = 10 * q" by (simp add: R)
    have d: "\<bar>10 * q - c\<bar> = 5" using c te by simp
    obtain k where k: "q = 2 * k" using te(2) by (elim evenE)
    have m: "(10 * q) mod 20 = 0" by (simp add: k)
    show ?thesis unfolding e d using m m10 [of q] by simp
  next
    case to
    then have e: "roundCurrent c = 10 * (q + 1)" by (simp add: R)
    have d: "\<bar>10 * (q + 1) - c\<bar> = 5" using c to by simp
    obtain k where k: "q = 2 * k + 1" using to(2) by (elim oddE)
    have "10 * (q + 1) = 20 * (k + 1)" by (simp add: k)
    then have m: "(10 * (q + 1)) mod 20 = 0" by simp
    show ?thesis unfolding e d using m m10 [of "q + 1"] by simp
  qed
qed

lemma run_one_sent:
  "snd (parsed (runInverterCommands dev [c] protocol s)) = s\<lparr>sent := sent s @ [(protocol, c)]\<rparr>"
  by (simp add: parsed_def runInverterCommands_def Let_def split: sum.splits)

lemma fmt_d_nonneg: "0 \<le> n \<Longrightarrow> set (fmt_d n) \<subseteq> set ''0123456789'' \<and> int (read_dec (fmt_d n)) = n"
  using dec_digits [of "nat n"] by (simp add: fmt_d_def read_dec_dec)

lemma fmt_d_neg: "n < 0 \<Longrightarrow> fmt_d n = CHR ''-'' # fmt_d (- n)"
  by (simp add: fmt_d_def)

lemma py_int_trunc:
  "\<bar>of_int (py_int x)\<bar> \<le> \<bar>x\<bar> \<and> \<bar>x\<bar> < \<bar>of_int (py_int x)\<bar> + 1
   \<and> (0 \<le> x \<longrightarrow> 0 \<le> py_int x) \<and> (x \<le> 0 \<longrightarrow> py_int x \<le> 0)"
proof (cases "x < 0")
  case True
  define y where "y = - x"
  have y: "0 < y" using True by (simp add: y_def)
  have f0: "0 \<le> \<lfloor>y\<rfloor>" using y by simp
  have f1: "of_int \<lfloor>y\<rfloor> \<le> y" by simp
  have f2: "y < of_int \<lfloor>y\<rfloor> + 1" by linarith
  have p: "py_int x = - \<lfloor>y\<rfloor>" using True by (simp add: py_int_def y_def)
  have a: "\<bar>(of_int (py_int x) :: rat)\<bar> = of_int \<lfloor>y\<rfloor>" using f0 by (simp add: p)
  have b: "\<bar>x\<bar> = y" using True by (simp add: y_def)
  have 1: "\<bar>of_int (py_int x)\<bar> \<le> \<bar>x\<bar>" unfolding a b by (rule f1)
  have 2: "\<bar>x\<bar> < \<bar>of_int (py_int x)\<bar> + 1" unfolding a b by (rule f2)
  have 3: "0 \<le> x \<longrightarrow> 0 \<le> py_int x" using True by simp
  have 4: "x \<le> 0 \<longrightarrow> py_int x \<le> 0" using f0 by (simp add: p)
  from 1 2 3 4 show ?thesis by blast
next
  case False
  then have x: "0 \<le> x" by simp
  have f0: "0 \<le> \<lfloor>x\<rfloor>" using x by simp
  have f1: "of_int \<lfloor>x\<rfloor> \<le> x" by simp
  have f2: "x < of_int \<lfloor>x\<rfloor> + 1" by linarith
  have p: "py_int x = \<lfloor>x\<rfloor>" using False by (simp add: py_int_def)
  have a: "\<bar>(of_int (py_int x) :: rat)\<bar> = of_int \<lfloor>x\<rfloor>" using f0 by (simp add: p)
  have b: "\<bar>x\<bar> = x" using x by simp
  have 1: "\<bar>of_int (py_int x)\<bar> \<le> \<bar>x\<bar>" unfolding a b by (rule f1)
  have 2: "\<bar>x\<bar> < \<bar>of_int (py_int x)\<bar> + 1" unfolding a b by (rule f2)
  have 3: "0 \<le> x \<longrightarrow> 0 \<le> py_int x" using f0 by (simp add: p)
  have 4: "x \<le> 0 \<longrightarrow> py_int x \<le> 0"
  proof
    assume "x \<le> 0"
    with x have "x = 0" by simp
    then show "py_int x \<le> 0" by (simp add: py_int_def)
  qed
  from 1 2 3 4 show ?thesis by blast
qed

section \<open>Rounding to binary64\<close>

lemma py_round_error: "\<bar>of_int (py_round x) - x\<bar> \<le> 1 / 2"
proof -
  define f where "f = \<lfloor>x\<rfloor>"
  define d where "d = x - of_int f"
  have d0: "0 \<le> d" unfolding d_def f_def by simp
  have d1: "d < 1" unfolding d_def f_def by linarith
  have x: "x = of_int f + d" by (simp add: d_def)
  have p: "py_round x = (if d < 1 / 2 then f else if 1 / 2 < d then f + 1
                         else if even f then f else f + 1)"
    by (simp add: py_round_def Let_def f_def d_def)
  consider "d < 1 / 2" | "1 / 2 < d" | "d = 1 / 2" by linarith
  then show ?thesis
  proof cases
    case 1
    then have "py_round x = f" by (simp add: p)
    then show ?thesis using 1 d0 by (simp add: x)
  next
    case 2
    then have "py_round x = f + 1" by (simp add: p)
    then show ?thesis using 2 d1 by (simp add: x)
  next
    case 3
    then have "py_round x = (if even f then f else f + 1)" by (simp add: p)
    then consider (a) "py_round x = f" | (b) "py_round x = f + 1" by (cases "even f") simp_all
    then show ?thesis
    proof cases
      case a
      have "of_int (py_round x) - x = - d" unfolding a by (simp add: x)
      then show ?thesis using 3 by simp
    next
      case b
      have "of_int (py_round x) - x = 1 - d" unfolding b by (simp add: x)
      then show ?thesis using 3 by simp
    qed
  qed
qed

lemma py_round_of_int: "py_round (of_int n) = n"
  by (simp add: py_round_def Let_def)

lemma py_round_low:
  assumes "of_int n \<le> x" and "x < of_int n + 1 / 2"
  shows "py_round x = n"
proof -
  have f: "\<lfloor>x\<rfloor> = n" using assms by (intro floor_unique) linarith+
  have "x - of_int n < 1 / 2" using assms by linarith
  then show ?thesis by (simp add: py_round_def Let_def f)
qed

lemma py_round_high:
  assumes "of_int n + 1 / 2 < x" and "x < of_int n + 1"
  shows "py_round x = n + 1"
proof -
  have f: "\<lfloor>x\<rfloor> = n" using assms by (intro floor_unique) linarith+
  have "1 / 2 < x - of_int n" using assms by linarith
  then have "\<not> x - of_int n < 1 / 2" by linarith
  then show ?thesis using \<open>1 / 2 < x - of_int n\<close> by (simp add: py_round_def Let_def f)
qed

lemma two_powi_nat: "0 \<le> k \<Longrightarrow> (2::rat) powi k = 2 ^ nat k"
  by (rule power_int_nonneg_exp)

lemma two_powi_mono: "m \<le> n \<Longrightarrow> (2::rat) powi m \<le> 2 powi n"
  by (rule power_int_increasing) simp_all

lemma two_powi_less_exp: "(2::rat) powi m < 2 powi n \<Longrightarrow> m < n"
proof (rule ccontr)
  assume a: "(2::rat) powi m < 2 powi n" and "\<not> m < n"
  then have "n \<le> m" by simp
  then have "(2::rat) powi n \<le> 2 powi m" by (rule two_powi_mono)
  with a show False by simp
qed

lemma ilog2_bounds:
  assumes "0 < q"
  shows "2 powi (ilog2 q) \<le> q \<and> q < 2 powi (ilog2 q + 1)"
proof -
  obtain a b where ab: "quotient_of q = (a, b)" by (cases "quotient_of q")
  have b: "0 < b" using ab by (rule quotient_of_denom_pos)
  have q: "q = of_int a / of_int b" using ab by (rule quotient_of_div)
  have a: "0 < a"
  proof (rule ccontr)
    assume "\<not> 0 < a"
    then have "of_int a \<le> (0::rat)" by simp
    then have "q \<le> 0" unfolding q using b by (simp add: divide_le_0_iff)
    with assms show False by simp
  qed
  define la where "la = bitlen a"
  define lb where "lb = bitlen b"
  have la1: "1 \<le> la" using a bitlen_eq_zero_iff [of a] bitlen_nonneg [of a] by (simp add: la_def)
  have lb1: "1 \<le> lb" using b bitlen_eq_zero_iff [of b] bitlen_nonneg [of b] by (simp add: lb_def)
  have ia: "2 ^ nat (la - 1) \<le> a \<and> a < 2 ^ nat la" unfolding la_def using a by (rule bitlen_bounds)
  have ib: "2 ^ nat (lb - 1) \<le> b \<and> b < 2 ^ nat lb" unfolding lb_def using b by (rule bitlen_bounds)
  have a_lo: "(2::rat) powi (la - 1) \<le> of_int a"
  proof -
    have "(of_int (2 ^ nat (la - 1)) :: rat) \<le> of_int a" using ia by (simp only: of_int_le_iff)
    then show ?thesis using la1 by (simp add: two_powi_nat)
  qed
  have a_hi: "of_int a < (2::rat) powi la"
  proof -
    have "(of_int a :: rat) < of_int (2 ^ nat la)" using ia by (simp only: of_int_less_iff)
    then show ?thesis using la1 by (simp add: two_powi_nat)
  qed
  have b_lo: "(2::rat) powi (lb - 1) \<le> of_int b"
  proof -
    have "(of_int (2 ^ nat (lb - 1)) :: rat) \<le> of_int b" using ib by (simp only: of_int_le_iff)
    then show ?thesis using lb1 by (simp add: two_powi_nat)
  qed
  have b_hi: "of_int b \<le> (2::rat) powi lb"
  proof -
    have "(of_int b :: rat) < of_int (2 ^ nat lb)" using ib by (simp only: of_int_less_iff)
    then show ?thesis using lb1 by (simp add: two_powi_nat)
  qed
  have bp: "(0::rat) < of_int b" using b by simp
  have ap: "(0::rat) < of_int a" using a by simp
  have lo: "(2::rat) powi (la - lb - 1) \<le> q"
  proof -
    have "(2::rat) powi (la - lb - 1) = 2 powi ((la - 1) - lb)" by (simp add: algebra_simps)
    also have "\<dots> = 2 powi (la - 1) / 2 powi lb" by (rule power_int_diff) simp
    also have "\<dots> \<le> of_int a / of_int b"
      by (rule frac_le) (use a_lo b_hi bp ap in simp_all)
    finally show ?thesis by (simp add: q)
  qed
  have hi: "q < (2::rat) powi (la - lb + 1)"
  proof -
    have "q = of_int a / of_int b" by (rule q)
    also have "\<dots> < 2 powi la / 2 powi (lb - 1)"
      by (rule frac_less) (use a_hi b_lo ap in simp_all)
    also have "\<dots> = 2 powi (la - (lb - 1))" by (rule power_int_diff [symmetric]) simp
    also have "\<dots> = 2 powi (la - lb + 1)" by (simp add: algebra_simps)
    finally show ?thesis .
  qed
  have d: "ilog2 q = (if 2 powi (la - lb) \<le> q then la - lb else la - lb - 1)"
    by (simp add: ilog2_def ab la_def lb_def Let_def)
  show ?thesis
  proof (cases "2 powi (la - lb) \<le> q")
    case True
    then show ?thesis using hi by (simp add: d)
  next
    case False
    then have "q < 2 powi (la - lb)" by simp
    then show ?thesis using False lo by (simp add: d)
  qed
qed

lemma ulp_pos: "0 < ulp q"
  by (simp add: ulp_def)

lemma binary64_error: "\<bar>binary64 q - q\<bar> \<le> ulp q / 2"
proof (cases "q = 0")
  case True
  then show ?thesis using ulp_pos [of q] by (simp add: binary64_def)
next
  case False
  define u where "u = ulp q"
  have u: "0 < u" unfolding u_def by (rule ulp_pos)
  define r where "r = py_round (q / u)"
  have "\<bar>of_int r - q / u\<bar> \<le> 1 / 2" unfolding r_def by (rule py_round_error)
  then have "\<bar>of_int r - q / u\<bar> * u \<le> 1 / 2 * u" using u by (intro mult_right_mono) simp_all
  moreover have "\<bar>of_int r - q / u\<bar> * u = \<bar>of_int r * u - q\<bar>"
  proof -
    have "\<bar>of_int r - q / u\<bar> * u = \<bar>of_int r - q / u\<bar> * \<bar>u\<bar>" using u by simp
    also have "\<dots> = \<bar>(of_int r - q / u) * u\<bar>" by (simp add: abs_mult)
    also have "(of_int r - q / u) * u = of_int r * u - q" using u by (simp add: field_simps)
    finally show ?thesis .
  qed
  ultimately have "\<bar>of_int r * u - q\<bar> \<le> u / 2" by simp
  then show ?thesis using False by (simp add: binary64_def r_def u_def)
qed

lemma binary64_exact:
  assumes "q = of_int m * ulp q"
  shows "binary64 q = q"
proof (cases "q = 0")
  case True
  then show ?thesis by (simp add: binary64_def)
next
  case False
  have u: "0 < ulp q" by (rule ulp_pos)
  have "q / ulp q = of_int m" using assms u by (simp add: field_simps)
  then have "py_round (q / ulp q) = m" by (simp add: py_round_of_int)
  then show ?thesis using False assms by (simp add: binary64_def)
qed

lemma ulp_below_two_powi:
  assumes "q \<noteq> 0" and "\<bar>q\<bar> < 2 powi n" and "- 1022 \<le> n - 1" and "n \<le> 53"
  shows "\<exists>k. ulp q = 1 / 2 ^ k \<and> 53 - n \<le> int k" 
proof -
  have p: "0 < \<bar>q\<bar>" using assms(1) by simp
  have "2 powi (ilog2 \<bar>q\<bar>) \<le> \<bar>q\<bar>" using ilog2_bounds [OF p] by simp
  with assms(2) have "(2::rat) powi (ilog2 \<bar>q\<bar>) < 2 powi n" by simp
  then have l: "ilog2 \<bar>q\<bar> < n" by (rule two_powi_less_exp)
  define e where "e = max (ilog2 \<bar>q\<bar>) (- 1022)"
  have e: "e \<le> n - 1" using l assms(3) by (simp add: e_def)
  have e3: "e \<le> 52" using e assms(4) by simp
  have e2: "- 1022 \<le> e" by (simp add: e_def)
  define k where "k = nat (52 - e)"
  have k: "int k = 52 - e" using e3 by (simp add: k_def)
  have "ulp q = 2 powi (- (52 - e))" by (simp add: ulp_def e_def)
  also have "\<dots> = 1 / 2 powi (52 - e)" by (rule power_int_minus_divide)
  also have "2 powi (52 - e) = (2::rat) ^ k" using e3 by (simp add: two_powi_nat k_def)
  finally have "ulp q = 1 / 2 ^ k" .
  moreover have "53 - n \<le> int k" using e by (simp add: k)
  ultimately show ?thesis by blast
qed

lemma int_truediv_10:
  assumes "\<bar>binary64 (of_int c / 10)\<bar> < 2 powi 1024"
  shows "int_truediv c 10 = Inr (binary64 (of_int c / 10))"
proof -
  have z: "((10::int) = 0) = False" by simp
  have o: "(of_int (10::int) :: rat) = 10" by simp
  have n: "\<not> 2 powi 1024 \<le> \<bar>binary64 (of_int c / 10)\<bar>" using assms by (simp only: not_le)
  show ?thesis unfolding int_truediv_def Let_def z o if_False using n by (rule if_not_P)
qed

lemma int_truediv_10_overflow:
  assumes "2 powi 1024 \<le> \<bar>binary64 (of_int c / 10)\<bar>"
  shows "int_truediv c 10 = Inl OverflowError"
proof -
  have z: "((10::int) = 0) = False" by simp
  have o: "(of_int (10::int) :: rat) = 10" by simp
  show ?thesis unfolding int_truediv_def Let_def z o if_False using assms by (rule if_P)
qed

lemma below_overflow: "\<bar>r\<bar> < 2 powi 51 \<Longrightarrow> \<bar>r\<bar> < (2::rat) powi 1024"
proof -
  assume a: "\<bar>r\<bar> < 2 powi 51"
  have "(51::int) \<le> 1024" by simp
  then have "(2::rat) powi 51 \<le> 2 powi 1024" by (rule two_powi_mono)
  with a show ?thesis by (rule less_le_trans)
qed

lemma round_tenth_small:
  assumes c0: "0 \<le> c" and c1: "c < 10 * 2 ^ 50"
  shows "py_round (binary64 (of_int c / 10)) = py_round (of_int c / 10)
         \<and> \<bar>binary64 (of_int c / 10)\<bar> < 2 powi 51"
proof (cases "c = 0")
  case True
  then show ?thesis by (simp add: binary64_def)
next
  case False
  define q :: rat where "q = of_int c / 10"
  define F where "F = binary64 q"
  define n where "n = c div 10"
  define r where "r = c mod 10"
  have c: "c = 10 * n + r" by (simp add: n_def r_def)
  have r0: "0 \<le> r" and r10: "r < 10" by (simp_all add: r_def)
  have qn: "q = of_int n + of_int r / 10" unfolding q_def by (subst c) simp
  have cpos: "0 < c" using c0 False by simp
  have qpos: "0 < q" using cpos by (simp add: q_def)
  have q0: "q \<noteq> 0" using qpos by simp
  have "(of_int c :: rat) < of_int (10 * 2 ^ 50)" using c1 by (simp only: of_int_less_iff)
  then have qlt: "q < 2 ^ 50" by (simp add: q_def)
  have "\<bar>q\<bar> < 2 powi 50" using qpos qlt by simp
  from ulp_below_two_powi [OF q0 this] obtain k where
    u: "ulp q = 1 / 2 ^ k" and k3: "3 \<le> int k" by auto
  have k3': "3 \<le> k" using k3 by simp
  have "(2::rat) ^ 3 \<le> 2 ^ k" using k3' by (intro power_increasing) simp_all
  then have p8: "(8::rat) \<le> 2 ^ k" by simp
  have pk: "(0::rat) < 2 ^ k" by simp
  have "ulp q / 2 \<le> 1 / 16"
  proof -
    have "1 / (2::rat) ^ k \<le> 1 / 8" using p8 by (intro divide_left_mono) simp_all
    then show ?thesis by (simp add: u)
  qed
  with binary64_error [of q] have err: "\<bar>F - q\<bar> \<le> 1 / 16" unfolding F_def by linarith
  have Flo: "q - 1 / 16 \<le> F" and Fhi: "F \<le> q + 1 / 16" using err by linarith+
  have bound: "\<bar>F\<bar> < 2 powi 51"
  proof -
    have "F < 2 ^ 50 + 1" using Fhi qlt by linarith
    moreover have "- 1 < F" using Flo qpos by linarith
    ultimately have "\<bar>F\<bar> < 2 ^ 50 + 1" by (simp add: abs_less_iff)
    then show ?thesis by simp
  qed
  have eq: "py_round F = py_round q"
  proof -
    consider (zero) "r = 0" | (half) "r = 5" | (low) "1 \<le> r" "r \<le> 4" | (high) "6 \<le> r" "r \<le> 9"
      using r0 r10 by linarith
    then show ?thesis
    proof cases
      case zero
      have e: "q = of_int (n * 2 ^ k) * (1 / 2 ^ k)" by (simp add: qn zero)
      have "q = of_int (n * 2 ^ k) * ulp q" unfolding u by (rule e)
      then have "F = q" unfolding F_def by (rule binary64_exact)
      then show ?thesis by simp
    next
      case half
      obtain j where j: "k = Suc j" using k3' by (cases k) simp_all
      have e: "q = of_int ((2 * n + 1) * 2 ^ j) * (1 / 2 ^ k)"
        by (simp add: qn half j field_simps)
      have "q = of_int ((2 * n + 1) * 2 ^ j) * ulp q" unfolding u by (rule e)
      then have "F = q" unfolding F_def by (rule binary64_exact)
      then show ?thesis by simp
    next
      case low
      have a: "of_int n + 1 / 10 \<le> q"
      proof -
        have "(1::rat) \<le> of_int r" using low(1) by simp
        then show ?thesis by (simp add: qn)
      qed
      have b: "q \<le> of_int n + 4 / 10"
      proof -
        have "(of_int r :: rat) \<le> 4" using low(2) by simp
        then show ?thesis by (simp add: qn)
      qed
      have "py_round q = n" using a b by (intro py_round_low) linarith+
      moreover have "py_round F = n" using a b Flo Fhi by (intro py_round_low) linarith+
      ultimately show ?thesis by simp
    next
      case high
      have a: "of_int n + 6 / 10 \<le> q"
      proof -
        have "(6::rat) \<le> of_int r" using high(1) by simp
        then show ?thesis by (simp add: qn)
      qed
      have b: "q \<le> of_int n + 9 / 10"
      proof -
        have "(of_int r :: rat) \<le> 9" using high(2) by simp
        then show ?thesis by (simp add: qn)
      qed
      have "py_round q = n + 1" using a b by (intro py_round_high) linarith+
      moreover have "py_round F = n + 1" using a b Flo Fhi by (intro py_round_high) linarith+
      ultimately show ?thesis by simp
    qed
  qed
  show ?thesis using eq bound unfolding F_def q_def by simp
qed

lemma round_tenth_edge:
  "py_round (binary64 (of_int 11258999068426240 / 10)) = py_round (of_int 11258999068426240 / 10)
     \<and> \<bar>binary64 (of_int 11258999068426240 / 10)\<bar> < 2 ^ 51"
  "py_round (binary64 (of_int 11258999068426241 / 10)) = py_round (of_int 11258999068426241 / 10)
     \<and> \<bar>binary64 (of_int 11258999068426241 / 10)\<bar> < 2 ^ 51"
  "py_round (binary64 (of_int 11258999068426242 / 10)) = py_round (of_int 11258999068426242 / 10)
     \<and> \<bar>binary64 (of_int 11258999068426242 / 10)\<bar> < 2 ^ 51"
  "py_round (binary64 (of_int 11258999068426243 / 10)) = py_round (of_int 11258999068426243 / 10)
     \<and> \<bar>binary64 (of_int 11258999068426243 / 10)\<bar> < 2 ^ 51"
  "py_round (binary64 (of_int 11258999068426244 / 10)) = py_round (of_int 11258999068426244 / 10)
     \<and> \<bar>binary64 (of_int 11258999068426244 / 10)\<bar> < 2 ^ 51"
  "py_round (binary64 (of_int 11258999068426245 / 10)) = py_round (of_int 11258999068426245 / 10)
     \<and> \<bar>binary64 (of_int 11258999068426245 / 10)\<bar> < 2 ^ 51"
  by code_simp+

lemma round_tenth_binary64:
  assumes c0: "0 \<le> c" and c1: "c < 11258999068426246"
  shows "py_round (binary64 (of_int c / 10)) = py_round (of_int c / 10)
         \<and> \<bar>binary64 (of_int c / 10)\<bar> < 2 powi 51"
proof (cases "c < 11258999068426240")
  case True
  then have "c < 10 * 2 ^ 50" by simp
  with c0 show ?thesis by (rule round_tenth_small)
next
  case False
  with c1 consider "c = 11258999068426240" | "c = 11258999068426241" | "c = 11258999068426242"
    | "c = 11258999068426243" | "c = 11258999068426244" | "c = 11258999068426245"
    by linarith
  then show ?thesis
  proof cases
    case 1 show ?thesis unfolding 1 using round_tenth_edge(1) by simp
  next
    case 2 show ?thesis unfolding 2 using round_tenth_edge(2) by simp
  next
    case 3 show ?thesis unfolding 3 using round_tenth_edge(3) by simp
  next
    case 4 show ?thesis unfolding 4 using round_tenth_edge(4) by simp
  next
    case 5 show ?thesis unfolding 5 using round_tenth_edge(5) by simp
  next
    case 6 show ?thesis unfolding 6 using round_tenth_edge(6) by simp
  qed
qed

text \<open>The rounded current of the code, for a current in the exact range.\<close>

lemma rounded_current:
  assumes "0 \<le> c" and "c < 11258999068426246"
  shows "int_truediv c 10 = Inr (binary64 (of_int c / 10))
         \<and> py_round (binary64 (of_int c / 10)) * 10 = roundCurrent c"
proof -
  note r = round_tenth_binary64 [OF assms]
  from r have "\<bar>binary64 (of_int c / 10)\<bar> < 2 powi 51" by blast
  then have "\<bar>binary64 (of_int c / 10)\<bar> < 2 powi 1024" by (rule below_overflow)
  then have 1: "int_truediv c 10 = Inr (binary64 (of_int c / 10))" by (rule int_truediv_10)
  from r have "py_round (binary64 (of_int c / 10)) = py_round (of_int c / 10)" by blast
  then have 2: "py_round (binary64 (of_int c / 10)) * 10 = roundCurrent c"
    using py_round_tenth [of c] by simp
  from 1 2 show ?thesis by blast
qed

text \<open>The first current whose binary64 tenth rounds the other way.\<close>

lemma rounded_current_246:
  "int_truediv 11258999068426246 10 = Inr (2251799813685249 / 2)
   \<and> py_round (2251799813685249 / 2) * 10 = 11258999068426240
   \<and> roundCurrent 11258999068426246 = 11258999068426250"
proof -
  have b: "binary64 (of_int 11258999068426246 / 10) = 2251799813685249 / 2" by code_simp
  have "\<bar>2251799813685249 / 2\<bar> < (2::rat) powi 51" by simp
  then have "\<bar>binary64 (of_int 11258999068426246 / 10)\<bar> < 2 powi 1024"
    unfolding b by (rule below_overflow)
  then have 1: "int_truediv 11258999068426246 10 = Inr (2251799813685249 / 2)"
    using int_truediv_10 [of 11258999068426246] by (simp only: b)
  have 2: "py_round (2251799813685249 / 2) * 10 = 11258999068426240" by code_simp
  have 3: "roundCurrent 11258999068426246 = 11258999068426250" by code_simp
  from 1 2 3 show ?thesis by blast
qed

section \<open>The commands of the setters\<close>

lemma setMaxChargingCurrent_sent:
  assumes "int_truediv c 10 = Inr q"
  shows "snd (setMaxChargingCurrent dev c protocol s) =
           s\<lparr>sent := sent s @ [(protocol,
                (if protocol = ''PI18'' then ''MCHGC0'' else ''MNCHGC0'') @ fmt_0d 4 (py_round q * 10))]\<rparr>"
  by (simp add: setMaxChargingCurrent_def assms run_one_sent del: append.simps)

lemma setMaxUtilityChargingCurrent_sent:
  assumes "int_truediv c 10 = Inr q"
  shows "snd (setMaxUtilityChargingCurrent dev c protocol s) =
           s\<lparr>sent := sent s @ [(''PI18'',
                if protocol = ''PI18'' then ''MUCHGC0'' @ fmt_0d 4 (max 2 (py_round q * 10))
                else ''MUCHGC'' @ fmt_0d 3 c)]\<rparr>"
  by (simp add: setMaxUtilityChargingCurrent_def assms run_one_sent del: append.simps)

lemma times10_finite:
  assumes "\<bar>binary64 (x * 10)\<bar> < 2 powi 1024"
  shows "times10 (NFloat x) = NFloat (binary64 (x * 10))"
proof -
  have p: "0 < (2::rat) powi 1024" by (rule zero_less_power_int) simp
  have a: "\<not> 2 powi 1024 \<le> binary64 (x * 10)" using assms by linarith
  have b: "\<not> binary64 (x * 10) \<le> - (2 powi 1024)" using assms by linarith
  show ?thesis unfolding times10.simps Let_def if_not_P [OF a] if_not_P [OF b] by (rule refl)
qed

lemma times10_overflow:
  assumes "2 powi 1024 \<le> \<bar>binary64 (x * 10)\<bar>"
  shows "int_of (times10 (NFloat x)) = Inl OverflowError"
proof (cases "2 powi 1024 \<le> binary64 (x * 10)")
  case True
  have "times10 (NFloat x) = NPosInf" unfolding times10.simps Let_def if_P [OF True] by (rule refl)
  then show ?thesis by simp
next
  case False
  have p: "0 < (2::rat) powi 1024" by (rule zero_less_power_int) simp
  have b: "binary64 (x * 10) \<le> - (2 powi 1024)" using assms False by linarith
  have "times10 (NFloat x) = NNegInf"
    unfolding times10.simps Let_def if_not_P [OF False] if_P [OF b] by (rule refl)
  then show ?thesis by simp
qed

lemma dec_numeral:
  "dec (numeral k) = (if (numeral k::nat) < 10 then [''0123456789'' ! numeral k]
                      else dec (numeral k div 10) @ [''0123456789'' ! (numeral k mod 10)])"
  by (rule dec.simps)

lemma dec_one: "dec (Suc 0) = ''1''"
  by code_simp

lemma fmt_0d_edge: "fmt_0d 4 11258999068426240 = ''11258999068426240''"
proof -
  have "dec 11258999068426240 = ''11258999068426240''" by (simp add: dec_numeral dec_one)
  then show ?thesis unfolding fmt_0d_def by simp
qed

text \<open>
  Claim C8, as stated, fails at 11258999068426246, the first such current: its float
  quotient by 10 is 1125899906842624.5, which rounds to the even 1125899906842624, so the
  command carries 11258999068426240, six away, where the nearest multiple of 10 is
  11258999068426250.
\<close>

theorem setMaxChargingCurrent_not_nearest:
  "sent (snd (setMaxChargingCurrent scenario 11258999068426246 ''PI18'' created))
     = [(''PI18'', ''MCHGC011258999068426240'')]
   \<and> roundCurrent 11258999068426246 = 11258999068426250
   \<and> \<bar>11258999068426240 - 11258999068426246\<bar> = (6::int)"
proof -
  note e = rounded_current_246
  have t: "int_truediv 11258999068426246 10 = Inr (2251799813685249 / 2)"
    using e by (rule conjunct1)
  have r: "py_round (2251799813685249 / 2) * 10 = 11258999068426240"
    using e [THEN conjunct2] by (rule conjunct1)
  have n: "roundCurrent 11258999068426246 = 11258999068426250"
    using e [THEN conjunct2] by (rule conjunct2)
  have d: "\<bar>11258999068426240 - 11258999068426246\<bar> = (6::int)" by simp
  note f = fmt_0d_edge
  have sc: "sent created = []" by (simp add: created_def)
  have "sent (snd (setMaxChargingCurrent scenario 11258999068426246 ''PI18'' created))
     = [(''PI18'', ''MCHGC011258999068426240'')]"
    unfolding setMaxChargingCurrent_sent [OF t] r f sc by simp
  then show ?thesis using n d by (intro conjI)
qed

text \<open>
  Claim C8, amended. For every current from 0 up to 11258999068426245, setting the max
  charging current sends one command: the prefix \<^verbatim>\<open>MCHGC0\<close> under PI18 and \<^verbatim>\<open>MNCHGC0\<close> under
  any other protocol (the parallel-unit digit 0 in both), followed by the multiple of 10
  nearest to the current, a tie going to the multiple with an even number of tens, as a
  zero-padded decimal of four digits.
\<close>

theorem setMaxChargingCurrent_command:
  assumes "0 \<le> c" and "c < 11258999068426246"
  shows "snd (setMaxChargingCurrent dev c protocol s) =
           s\<lparr>sent := sent s @ [(protocol,
                (if protocol = ''PI18'' then ''MCHGC0'' else ''MNCHGC0'') @ fmt_0d 4 (roundCurrent c))]\<rparr>
         \<and> roundCurrent c mod 10 = 0 \<and> \<bar>roundCurrent c - c\<bar> \<le> 5
         \<and> (\<bar>roundCurrent c - c\<bar> = 5 \<longrightarrow> roundCurrent c mod 20 = 0)
         \<and> set (fmt_0d 4 (roundCurrent c)) \<subseteq> set ''0123456789''
         \<and> int (read_dec (fmt_0d 4 (roundCurrent c))) = roundCurrent c
         \<and> 4 \<le> length (fmt_0d 4 (roundCurrent c))
         \<and> (roundCurrent c < 10000 \<longrightarrow> length (fmt_0d 4 (roundCurrent c)) = 4)"
proof -
  note rc = rounded_current [OF assms]
  have t: "int_truediv c 10 = Inr (binary64 (of_int c / 10))" using rc by (rule conjunct1)
  have r: "py_round (binary64 (of_int c / 10)) * 10 = roundCurrent c" using rc by (rule conjunct2)
  have n: "0 \<le> roundCurrent c" using assms(1) by (rule roundCurrent_nonneg)
  have 1: "snd (setMaxChargingCurrent dev c protocol s) =
           s\<lparr>sent := sent s @ [(protocol,
                (if protocol = ''PI18'' then ''MCHGC0'' else ''MNCHGC0'') @ fmt_0d 4 (roundCurrent c))]\<rparr>"
    unfolding setMaxChargingCurrent_sent [OF t] r by (rule refl)
  have 2: "roundCurrent c < 10000 \<longrightarrow> length (fmt_0d 4 (roundCurrent c)) = 4"
    using n dec_length4 [of "nat (roundCurrent c)"] by (auto simp add: fmt_0d_length)
  have 3: "4 \<le> length (fmt_0d 4 (roundCurrent c))" using n by (simp add: fmt_0d_length)
  show ?thesis using 1 2 3 roundCurrent_nearest [of c] fmt_0d_digits [OF n] fmt_0d_value [OF n]
    by blast
qed

theorem setMaxChargingCurrent_command_witness:
  "(0::int) \<le> 25 \<and> (25::int) < 11258999068426246
   \<and> sent (snd (setMaxChargingCurrent scenario 25 ''PI18'' created)) = [(''PI18'', ''MCHGC00020'')]
   \<and> sent (snd (setMaxChargingCurrent scenario 25 ''PI30'' created)) = [(''PI30'', ''MNCHGC00020'')]"
proof -
  have h: "(0::int) \<le> 25" by simp
  have h2: "(25::int) < 11258999068426246" by simp
  have r: "fmt_0d 4 (roundCurrent 25) = ''0020''" by code_simp
  have sc: "sent created = []" by (simp add: created_def)
  have a: "snd (setMaxChargingCurrent scenario 25 ''PI18'' created) =
      created\<lparr>sent := sent created @ [(''PI18'',
          (if ''PI18'' = ''PI18'' then ''MCHGC0'' else ''MNCHGC0'') @ fmt_0d 4 (roundCurrent 25))]\<rparr>"
    using setMaxChargingCurrent_command [OF h h2, of scenario "''PI18''" created]
    by (rule conjunct1)
  have b: "snd (setMaxChargingCurrent scenario 25 ''PI30'' created) =
      created\<lparr>sent := sent created @ [(''PI30'',
          (if ''PI30'' = ''PI18'' then ''MCHGC0'' else ''MNCHGC0'') @ fmt_0d 4 (roundCurrent 25))]\<rparr>"
    using setMaxChargingCurrent_command [OF h h2, of scenario "''PI30''" created]
    by (rule conjunct1)
  show ?thesis unfolding a b sc r by simp
qed

lemma setMaxChargingCurrent_overflow:
  assumes "2 powi 1024 \<le> \<bar>binary64 (of_int c / 10)\<bar>"
  shows "setMaxChargingCurrent dev c protocol s = (Inl OverflowError, s)"
  by (simp add: setMaxChargingCurrent_def int_truediv_10_overflow [OF assms])

lemma setMaxUtilityChargingCurrent_overflow:
  assumes "2 powi 1024 \<le> \<bar>binary64 (of_int c / 10)\<bar>"
  shows "setMaxUtilityChargingCurrent dev c protocol s = (Inl OverflowError, s)"
  by (simp add: setMaxUtilityChargingCurrent_def int_truediv_10_overflow [OF assms])

lemma setMaxChargingVoltage_sent:
  assumes "int_of (times10 v) = Inr n"
  shows "snd (setMaxChargingVoltage dev v ''PI18'' s) =
           s\<lparr>sent := sent s @ [(''PI18'', ''MCHGV'' @ fmt_d n @ '','' @ fmt_d n)]\<rparr>"
  by (simp add: setMaxChargingVoltage_def assms run_one_sent del: append.simps)

lemma setMaxChargingVoltage_raises:
  assumes "int_of (times10 v) = Inl e"
  shows "setMaxChargingVoltage dev v ''PI18'' s = (Inl e, s)"
  by (simp add: setMaxChargingVoltage_def assms)

lemma setMaxChargingVoltage_overflow:
  assumes "2 powi 1024 \<le> \<bar>binary64 (x * 10)\<bar>"
  shows "setMaxChargingVoltage dev (NFloat x) ''PI18'' s = (Inl OverflowError, s)"
  using times10_overflow [OF assms] by (rule setMaxChargingVoltage_raises)

text \<open>
  Claim C7, as stated, fails at 11258999068426246, the first such current: under PI18 the
  command carries 11258999068426240 where the nearest multiple of 10 is 11258999068426250.
\<close>

theorem setMaxUtilityChargingCurrent_not_nearest:
  "sent (snd (setMaxUtilityChargingCurrent scenario 11258999068426246 ''PI18'' created))
     = [(''PI18'', ''MUCHGC011258999068426240'')]
   \<and> max 2 (roundCurrent 11258999068426246) = 11258999068426250"
proof -
  note e = rounded_current_246
  have t: "int_truediv 11258999068426246 10 = Inr (2251799813685249 / 2)"
    using e by (rule conjunct1)
  have r: "py_round (2251799813685249 / 2) * 10 = 11258999068426240"
    using e [THEN conjunct2] by (rule conjunct1)
  have n: "roundCurrent 11258999068426246 = 11258999068426250"
    using e [THEN conjunct2] by (rule conjunct2)
  have m: "max 2 (11258999068426240::int) = 11258999068426240" by simp
  have m2: "max 2 (11258999068426250::int) = 11258999068426250" by simp
  note f = fmt_0d_edge
  have sc: "sent created = []" by (simp add: created_def)
  have "sent (snd (setMaxUtilityChargingCurrent scenario 11258999068426246 ''PI18'' created))
     = [(''PI18'', ''MUCHGC011258999068426240'')]"
    unfolding setMaxUtilityChargingCurrent_sent [OF t] r m f sc by simp
  moreover have "max 2 (roundCurrent 11258999068426246) = 11258999068426250"
    unfolding n by (rule m2)
  ultimately show ?thesis by (intro conjI)
qed

text \<open>
  Claim C7, amended. For every current from 0 up to 11258999068426245, setting the max
  utility charging current under PI18 sends \<^verbatim>\<open>MUCHGC0\<close> followed by the maximum of 2 and
  the multiple of 10 nearest to the current (a tie going to the even number of tens),
  zero-padded to four digits; under any other protocol it sends \<^verbatim>\<open>MUCHGC\<close> followed by the
  current itself, neither rounded nor clamped, zero-padded to three digits, and sends it
  under the default protocol PI18.
\<close>

theorem setMaxUtilityChargingCurrent_command:
  assumes "0 \<le> c" and "c < 11258999068426246"
  shows "(protocol = ''PI18'' \<longrightarrow>
            snd (setMaxUtilityChargingCurrent dev c protocol s) =
              s\<lparr>sent := sent s @ [(''PI18'', ''MUCHGC0'' @ fmt_0d 4 (max 2 (roundCurrent c)))]\<rparr>)
         \<and> (protocol \<noteq> ''PI18'' \<longrightarrow>
            snd (setMaxUtilityChargingCurrent dev c protocol s) =
              s\<lparr>sent := sent s @ [(''PI18'', ''MUCHGC'' @ fmt_0d 3 c)]\<rparr>)
         \<and> roundCurrent c mod 10 = 0 \<and> \<bar>roundCurrent c - c\<bar> \<le> 5
         \<and> (\<bar>roundCurrent c - c\<bar> = 5 \<longrightarrow> roundCurrent c mod 20 = 0)
         \<and> set (fmt_0d 4 (max 2 (roundCurrent c))) \<subseteq> set ''0123456789''
         \<and> int (read_dec (fmt_0d 4 (max 2 (roundCurrent c)))) = max 2 (roundCurrent c)
         \<and> 4 \<le> length (fmt_0d 4 (max 2 (roundCurrent c)))
         \<and> (roundCurrent c < 10000 \<longrightarrow> length (fmt_0d 4 (max 2 (roundCurrent c))) = 4)
         \<and> set (fmt_0d 3 c) \<subseteq> set ''0123456789''
         \<and> int (read_dec (fmt_0d 3 c)) = c
         \<and> 3 \<le> length (fmt_0d 3 c)
         \<and> (c < 1000 \<longrightarrow> length (fmt_0d 3 c) = 3)"
proof -
  note rc = rounded_current [OF assms]
  have t: "int_truediv c 10 = Inr (binary64 (of_int c / 10))" using rc by (rule conjunct1)
  have r: "py_round (binary64 (of_int c / 10)) * 10 = roundCurrent c" using rc by (rule conjunct2)
  define m where "m = max 2 (roundCurrent c)"
  have n: "0 \<le> m" by (simp add: m_def)
  have 0: "snd (setMaxUtilityChargingCurrent dev c protocol s) =
           s\<lparr>sent := sent s @ [(''PI18'',
                if protocol = ''PI18'' then ''MUCHGC0'' @ fmt_0d 4 m
                else ''MUCHGC'' @ fmt_0d 3 c)]\<rparr>"
    unfolding setMaxUtilityChargingCurrent_sent [OF t] r m_def by (rule refl)
  have 1: "protocol = ''PI18'' \<longrightarrow>
            snd (setMaxUtilityChargingCurrent dev c protocol s) =
              s\<lparr>sent := sent s @ [(''PI18'', ''MUCHGC0'' @ fmt_0d 4 m)]\<rparr>"
    unfolding 0 by simp
  have 2: "protocol \<noteq> ''PI18'' \<longrightarrow>
            snd (setMaxUtilityChargingCurrent dev c protocol s) =
              s\<lparr>sent := sent s @ [(''PI18'', ''MUCHGC'' @ fmt_0d 3 c)]\<rparr>"
    unfolding 0 by simp
  have 3: "4 \<le> length (fmt_0d 4 m)" using n by (simp add: fmt_0d_length)
  have 4: "roundCurrent c < 10000 \<longrightarrow> length (fmt_0d 4 m) = 4"
  proof
    assume "roundCurrent c < 10000"
    then have "nat m < 10000" by (simp add: m_def)
    then have "length (dec (nat m)) \<le> 4" by (rule dec_length4)
    then show "length (fmt_0d 4 m) = 4" using n by (simp add: fmt_0d_length)
  qed
  have 5: "3 \<le> length (fmt_0d 3 c)" using assms(1) by (simp add: fmt_0d_length)
  have 6: "c < 1000 \<longrightarrow> length (fmt_0d 3 c) = 3"
  proof
    assume "c < 1000"
    then have "nat c < 1000" by simp
    then have "length (dec (nat c)) \<le> 3" by (rule dec_length3)
    then show "length (fmt_0d 3 c) = 3" using assms(1) by (simp add: fmt_0d_length)
  qed
  show ?thesis
    using 1 2 3 4 5 6 roundCurrent_nearest [of c] fmt_0d_digits [OF n, of 4] fmt_0d_value [OF n, of 4]
      fmt_0d_digits [OF assms(1), of 3] fmt_0d_value [OF assms(1), of 3]
    unfolding m_def by blast
qed

theorem setMaxUtilityChargingCurrent_command_witness:
  "(0::int) \<le> 3 \<and> (3::int) < 11258999068426246
   \<and> sent (snd (setMaxUtilityChargingCurrent scenario 3 ''PI18'' created))
       = [(''PI18'', ''MUCHGC00002'')]
   \<and> sent (snd (setMaxUtilityChargingCurrent scenario 3 ''PI30'' created))
       = [(''PI18'', ''MUCHGC003'')]"
proof -
  have h: "(0::int) \<le> 3" by simp
  have h2: "(3::int) < 11258999068426246" by simp
  have r: "fmt_0d 4 (max 2 (roundCurrent 3)) = ''0002''" by code_simp
  have r3: "fmt_0d 3 3 = ''003''" by code_simp
  have sc: "sent created = []" by (simp add: created_def)
  have p: "''PI18'' = ''PI18''" by simp
  have q: "''PI30'' \<noteq> ''PI18''" by simp
  note t = setMaxUtilityChargingCurrent_command [OF h h2, of _ scenario created]
  have a: "snd (setMaxUtilityChargingCurrent scenario 3 ''PI18'' created) =
              created\<lparr>sent := sent created @ [(''PI18'', ''MUCHGC0'' @ fmt_0d 4 (max 2 (roundCurrent 3)))]\<rparr>"
    using t [of "''PI18''", THEN conjunct1] p by (rule mp)
  have b: "snd (setMaxUtilityChargingCurrent scenario 3 ''PI30'' created) =
              created\<lparr>sent := sent created @ [(''PI18'', ''MUCHGC'' @ fmt_0d 3 3)]\<rparr>"
    using t [of "''PI30''", THEN conjunct2, THEN conjunct1] q by (rule mp)
  show ?thesis unfolding a b sc r r3 by simp
qed

text \<open>
  Claim C9, as stated, fails for the float that is not a number: under PI18 the conversion
  to an integer raises and no command is issued.
\<close>

theorem setMaxChargingVoltage_nan_raises:
  "setMaxChargingVoltage scenario NNan ''PI18'' created = (Inl ValueError, created)
   \<and> sent created = []"
proof -
  have "int_of (times10 NNan) = Inl ValueError" by simp
  then have "setMaxChargingVoltage scenario NNan ''PI18'' created = (Inl ValueError, created)"
    by (rule setMaxChargingVoltage_raises)
  moreover have "sent created = []" by (simp add: created_def)
  ultimately show ?thesis by (intro conjI)
qed

text \<open>
  Claim C9, amended. Under any protocol other than PI18, setting the max charging voltage
  sends nothing and returns \<^verbatim>\<open>True\<close>, whatever the voltage. Under PI18 an integer voltage
  \<open>k\<close> sends exactly one command, \<^verbatim>\<open>MCHGV\<close> followed by \<open>10 k\<close>, a comma and \<open>10 k\<close> again; a
  float voltage \<open>x\<close> whose product with 10, rounded to binary64, is finite sends exactly
  one command, \<^verbatim>\<open>MCHGV\<close> followed by that rounded product truncated towards zero, a comma
  and the same integer again. The rounded product lies within half a unit in the last
  place of the exact product, and the truncated integer within one of the rounded
  product, towards zero. The float that is not a number and the two infinities raise, and
  nothing is sent.
\<close>

theorem setMaxChargingVoltage_command:
  "(protocol \<noteq> ''PI18'' \<longrightarrow> setMaxChargingVoltage dev v protocol s = (Inr PyTrue, s))
   \<and> snd (setMaxChargingVoltage dev (NInt k) ''PI18'' s) =
        s\<lparr>sent := sent s @ [(''PI18'', ''MCHGV'' @ fmt_d (k * 10) @ '','' @ fmt_d (k * 10))]\<rparr>
   \<and> (\<bar>binary64 (x * 10)\<bar> < 2 powi 1024 \<longrightarrow>
        snd (setMaxChargingVoltage dev (NFloat x) ''PI18'' s) =
          s\<lparr>sent := sent s @ [(''PI18'',
               ''MCHGV'' @ fmt_d (py_int (binary64 (x * 10))) @ '',''
                 @ fmt_d (py_int (binary64 (x * 10))))]\<rparr>)
   \<and> \<bar>binary64 (x * 10) - x * 10\<bar> \<le> ulp (x * 10) / 2
   \<and> \<bar>of_int (py_int (binary64 (x * 10)))\<bar> \<le> \<bar>binary64 (x * 10)\<bar>
   \<and> \<bar>binary64 (x * 10)\<bar> < \<bar>of_int (py_int (binary64 (x * 10)))\<bar> + 1
   \<and> setMaxChargingVoltage dev NNan ''PI18'' s = (Inl ValueError, s)
   \<and> setMaxChargingVoltage dev NPosInf ''PI18'' s = (Inl OverflowError, s)
   \<and> setMaxChargingVoltage dev NNegInf ''PI18'' s = (Inl OverflowError, s)"
proof -
  have 1: "protocol \<noteq> ''PI18'' \<longrightarrow> setMaxChargingVoltage dev v protocol s = (Inr PyTrue, s)"
    by (simp add: setMaxChargingVoltage_def)
  have "int_of (times10 (NInt k)) = Inr (k * 10)" by simp
  then have 2: "snd (setMaxChargingVoltage dev (NInt k) ''PI18'' s) =
        s\<lparr>sent := sent s @ [(''PI18'', ''MCHGV'' @ fmt_d (k * 10) @ '','' @ fmt_d (k * 10))]\<rparr>"
    by (rule setMaxChargingVoltage_sent)
  have 3: "\<bar>binary64 (x * 10)\<bar> < 2 powi 1024 \<longrightarrow>
        snd (setMaxChargingVoltage dev (NFloat x) ''PI18'' s) =
          s\<lparr>sent := sent s @ [(''PI18'',
               ''MCHGV'' @ fmt_d (py_int (binary64 (x * 10))) @ '',''
                 @ fmt_d (py_int (binary64 (x * 10))))]\<rparr>"
  proof
    assume "\<bar>binary64 (x * 10)\<bar> < 2 powi 1024"
    then have "times10 (NFloat x) = NFloat (binary64 (x * 10))" by (rule times10_finite)
    then have "int_of (times10 (NFloat x)) = Inr (py_int (binary64 (x * 10)))" by simp
    then show "snd (setMaxChargingVoltage dev (NFloat x) ''PI18'' s) =
          s\<lparr>sent := sent s @ [(''PI18'',
               ''MCHGV'' @ fmt_d (py_int (binary64 (x * 10))) @ '',''
                 @ fmt_d (py_int (binary64 (x * 10))))]\<rparr>"
      by (rule setMaxChargingVoltage_sent)
  qed
  have 4: "\<bar>binary64 (x * 10) - x * 10\<bar> \<le> ulp (x * 10) / 2" by (rule binary64_error)
  note t = py_int_trunc [of "binary64 (x * 10)"]
  have 5: "\<bar>of_int (py_int (binary64 (x * 10)))\<bar> \<le> \<bar>binary64 (x * 10)\<bar>"
    using t by (rule conjunct1)
  have 6: "\<bar>binary64 (x * 10)\<bar> < \<bar>of_int (py_int (binary64 (x * 10)))\<bar> + 1"
    using t [THEN conjunct2] by (rule conjunct1)
  have "int_of (times10 NNan) = Inl ValueError" by simp
  then have 7: "setMaxChargingVoltage dev NNan ''PI18'' s = (Inl ValueError, s)"
    by (rule setMaxChargingVoltage_raises)
  have "int_of (times10 NPosInf) = Inl OverflowError" by simp
  then have 8: "setMaxChargingVoltage dev NPosInf ''PI18'' s = (Inl OverflowError, s)"
    by (rule setMaxChargingVoltage_raises)
  have "int_of (times10 NNegInf) = Inl OverflowError" by simp
  then have 9: "setMaxChargingVoltage dev NNegInf ''PI18'' s = (Inl OverflowError, s)"
    by (rule setMaxChargingVoltage_raises)
  show ?thesis using 1 2 3 4 5 6 7 8 9 by (intro conjI)
qed

theorem setMaxChargingVoltage_command_witness:
  "''PI30'' \<noteq> ''PI18''
   \<and> \<bar>binary64 (3398810343781171 / 70368744177664 * 10)\<bar> < 2 powi 1024
   \<and> setMaxChargingVoltage scenario (NFloat (3398810343781171 / 70368744177664)) ''PI30'' created
       = (Inr PyTrue, created)
   \<and> sent (snd (setMaxChargingVoltage scenario (NFloat (3398810343781171 / 70368744177664))
                ''PI18'' created))
       = [(''PI18'', ''MCHGV483,483'')]"
proof -
  have q: "''PI30'' \<noteq> ''PI18''" by simp
  have v: "binary64 (3398810343781171 / 70368744177664 * 10) = 483" by code_simp
  have "\<bar>483::rat\<bar> < 2 powi 51" by code_simp
  then have "\<bar>483::rat\<bar> < 2 powi 1024" by (rule below_overflow)
  then have f: "\<bar>binary64 (3398810343781171 / 70368744177664 * 10)\<bar> < 2 powi 1024"
    unfolding v .
  have r: "fmt_d (py_int (binary64 (3398810343781171 / 70368744177664 * 10))) = ''483''"
    unfolding v by code_simp
  have sc: "sent created = []" by (simp add: created_def)
  note t = setMaxChargingVoltage_command
    [of _ scenario "NFloat (3398810343781171 / 70368744177664)" created _
        "3398810343781171 / 70368744177664"]
  have a: "setMaxChargingVoltage scenario (NFloat (3398810343781171 / 70368744177664)) ''PI30'' created
       = (Inr PyTrue, created)"
    using t [of "''PI30''", THEN conjunct1] q by (rule mp)
  have b: "snd (setMaxChargingVoltage scenario (NFloat (3398810343781171 / 70368744177664))
                ''PI18'' created) =
          created\<lparr>sent := sent created @ [(''PI18'',
               ''MCHGV'' @ fmt_d (py_int (binary64 (3398810343781171 / 70368744177664 * 10))) @ '',''
                 @ fmt_d (py_int (binary64 (3398810343781171 / 70368744177664 * 10))))]\<rparr>"
    using t [of "''PI18''", THEN conjunct2, THEN conjunct2, THEN conjunct1] f by (rule mp)
  have c: "sent (snd (setMaxChargingVoltage scenario (NFloat (3398810343781171 / 70368744177664))
                ''PI18'' created)) = [(''PI18'', ''MCHGV483,483'')]"
    unfolding b r sc by simp
  show ?thesis using q f a c by (intro conjI)
qed

section \<open>The poll cycle and the merge point\<close>

lemma bnd_Inr:
  "(bnd m f s = (Inr y, s')) = (\<exists>x s1. m s = (Inr x, s1) \<and> f x s1 = (Inr y, s'))"
  by (auto simp add: bnd_def split: prod.splits sum.splits)

lemma ret_Inr: "(ret x s = (Inr y, s')) = (y = x \<and> s' = s)"
  by (auto simp add: ret_def)

lemma lift_Inr: "(lift r s = (Inr y, s')) = (r = Inr y \<and> s' = s)"
  by (auto simp add: lift_def)

lemma inv_get_Inr: "(inv_get p s = (Inr v, s')) = (dbusinverter s p = Some v \<and> s' = s)"
  by (auto simp add: inv_get_def getitem_def split: option.splits)

lemma mppt_get_Inr: "(mppt_get p s = (Inr v, s')) = (dbusmppt s p = Some v \<and> s' = s)"
  by (auto simp add: mppt_get_def getitem_def split: option.splits)

lemma inv_set_Inr:
  "(inv_set p v s = (Inr u, s')) =
     (dbusinverter s p \<noteq> None \<and> s' = s\<lparr>dbusinverter := (dbusinverter s)(p \<mapsto> v)\<rparr>)"
  by (auto simp add: inv_set_def setitem_def split: option.splits)

lemma mppt_set_Inr:
  "(mppt_set p v s = (Inr u, s')) =
     (dbusmppt s p \<noteq> None \<and> s' = s\<lparr>dbusmppt := (dbusmppt s)(p \<mapsto> v)\<rparr>)"
  by (auto simp add: mppt_set_def setitem_def split: option.splits)

lemma inv_copy_Inr:
  "(inv_copy p d k s = (Inr u, s')) =
     (dbusinverter s p \<noteq> None
      \<and> s' = s\<lparr>dbusinverter := (dbusinverter s)(p \<mapsto> dict_get d k (the (dbusinverter s p)))\<rparr>)"
  by (auto simp add: inv_copy_def bnd_Inr inv_get_Inr inv_set_Inr)

lemma mppt_copy_Inr:
  "(mppt_copy p d k s = (Inr u, s')) =
     (dbusmppt s p \<noteq> None
      \<and> s' = s\<lparr>dbusmppt := (dbusmppt s)(p \<mapsto> dict_get d k (the (dbusmppt s p)))\<rparr>)"
  by (auto simp add: mppt_copy_def bnd_Inr mppt_get_Inr mppt_set_Inr)

lemma py_truediv_1000: "py_truediv a (PInt 1000) = Inr q \<Longrightarrow> q = PFloat (the (num_of a) / 1000)"
  by (auto simp add: py_truediv_def split: option.splits if_splits)

lemma mppt_yield_Inr:
  "mppt_yield p generated s = (Inr u, s') \<Longrightarrow>
     dbusmppt s p \<noteq> None
     \<and> s' = s\<lparr>dbusmppt := (dbusmppt s)(p \<mapsto> yield_kwh generated (the (dbusmppt s p)))\<rparr>"
  by (auto simp add: mppt_yield_def bnd_Inr mppt_get_Inr mppt_set_Inr lift_Inr yield_kwh_def
        dest: py_truediv_1000)

lemma py_and_zero: "py_and (PInt 0) p = Inr x \<Longrightarrow> x = PInt 0"
  by (cases p) simp_all

lemma output_current_guard_Inr:
  "output_current_guard s = (Inr g, s') \<Longrightarrow> \<not> g \<and> s' = s"
  by (auto simp add: output_current_guard_def bnd_Inr inv_get_Inr lift_Inr ret_Inr py_ne_def
        dest!: py_and_zero)

lemma py_gt_int_Inr: "py_gt_int a 0 = Inr b \<Longrightarrow> b = pv_positive a"
  by (auto simp add: py_gt_int_def pv_positive_def split: option.splits)

lemma mpp_operation_mode_Inr:
  "mpp_operation_mode data s = (Inr v, s') \<Longrightarrow>
     s' = s \<and> v = PInt (if dict_get_none data ''pv1_input_power'' \<noteq> PNone
                   \<and> pv_positive (dict_get_none data ''pv1_input_power'') then 2 else 0)"
proof -
  have ne: "py_ne x PNone = (x \<noteq> PNone)" for x by (cases x) (simp_all add: py_ne_def)
  assume "mpp_operation_mode data s = (Inr v, s')"
  then show ?thesis
    by (auto simp add: mpp_operation_mode_def ne bnd_Inr lift_Inr ret_Inr split: if_splits
          dest!: py_gt_int_Inr)
qed

lemma stored_Cons: "stored ((p, v) # q) d = stored q (d(p \<mapsto> v))"
  by (simp add: stored_def)

lemma stored_Nil: "stored [] d = d"
  by (simp add: stored_def)

lemma store_queued_Inr:
  "store_queued q s = (Inr u, s') \<Longrightarrow>
     s' = s\<lparr>dbusinverter := stored q (dbusinverter s), dbusmppt := stored q (dbusmppt s)\<rparr>"
proof (induction q arbitrary: s)
  case Nil
  then show ?case by (simp add: ret_Inr stored_Nil)
next
  case (Cons a q)
  obtain p v where a: "a = (p, v)" by (cases a)
  define s2 where "s2 = s\<lparr>dbusinverter := (dbusinverter s)(p \<mapsto> v),
                           dbusmppt := (dbusmppt s)(p \<mapsto> v)\<rparr>"
  from Cons.prems have 3: "store_queued q s2 = (Inr u, s')"
    by (auto simp add: a s2_def bnd_Inr inv_set_Inr mppt_set_Inr)
  have i: "dbusinverter s2 = (dbusinverter s)(p \<mapsto> v)" by (simp add: s2_def)
  have m: "dbusmppt s2 = (dbusmppt s)(p \<mapsto> v)" by (simp add: s2_def)
  have "s' = s2\<lparr>dbusinverter := stored q (dbusinverter s2), dbusmppt := stored q (dbusmppt s2)\<rparr>"
    by (rule Cons.IH [OF 3])
  also have "\<dots> = s\<lparr>dbusinverter := stored q (dbusinverter s2), dbusmppt := stored q (dbusmppt s2)\<rparr>"
    by (simp add: s2_def)
  finally show ?case unfolding a stored_Cons i m .
qed

lemma updateInternal_Inr:
  "updateInternal s = (Inr u, s') \<Longrightarrow>
     s' = s\<lparr>dbusinverter := stored (queued_updates s) (dbusinverter s),
            dbusmppt := stored (queued_updates s) (dbusmppt s), queued_updates := []\<rparr>"
  by (auto simp add: updateInternal_def bnd_Inr dest!: store_queued_Inr)

lemma run_state_py_eq:
  "(if py_eq w (PStr ''Battery mode'') then PInt 9
    else if py_eq w (PStr ''Fault mode'') then PInt 2 else PInt 0) = PInt (run_state w)"
  by (cases w) (simp_all add: run_state_def)

lemma inverter_state_Inr:
  assumes "inverter_state mode s = (Inr u, s')"
  shows "s' = s\<lparr>dbusinverter := (dbusinverter s)
           (''/State'' \<mapsto> PInt (run_state (dict_get mode ''working_mode'' (the (dbusinverter s ''/State'')))))\<rparr>"
  using assms unfolding inverter_state_def Let_def run_state_py_eq
  by (auto simp add: bnd_Inr inv_get_Inr inv_set_Inr)

lemma read_data_Inr:
  assumes "read_data data s = (Inr u, s')"
  shows "s' = s\<lparr>dbusinverter := (dbusinverter s)
           (''/Dc/0/Voltage'' \<mapsto> dict_get data ''battery_voltage'' (the (dbusinverter s ''/Dc/0/Voltage'')),
            ''/Ac/Out/L1/V'' \<mapsto> dict_get data ''ac_output_voltage'' (the (dbusinverter s ''/Ac/Out/L1/V'')),
            ''/Ac/Out/L1/P'' \<mapsto> dict_get data ''ac_output_active_power'' (the (dbusinverter s ''/Ac/Out/L1/P''))),
          dbusmppt := (dbusmppt s)
           (''/Dc/0/Voltage'' \<mapsto> dict_get data ''battery_voltage'' (the (dbusmppt s ''/Dc/0/Voltage'')))\<rparr>"
  using assms unfolding read_data_def
  by (auto simp add: bnd_Inr ret_Inr inv_copy_Inr mppt_copy_Inr dest!: output_current_guard_Inr)

lemma solar_charger_Inr:
  assumes "solar_charger generated data s = (Inr u, s')"
  shows "s' = s\<lparr>dbusmppt := (dbusmppt s)
      (''/State'' \<mapsto> PInt (if pv_positive (dict_get data ''pv1_input_power'' (PInt 0)) then 3 else 0),
       ''/Pv/V'' \<mapsto> dict_get data ''pv1_input_voltage'' (the (dbusmppt s ''/Pv/V'')),
       ''/Yield/Power'' \<mapsto> dict_get data ''pv1_input_power'' (the (dbusmppt s ''/Yield/Power'')),
       ''/Yield/User'' \<mapsto> yield_kwh generated (the (dbusmppt s ''/Yield/User'')),
       ''/Yield/System'' \<mapsto> yield_kwh generated (the (dbusmppt s ''/Yield/System'')),
       ''/MppOperationMode'' \<mapsto>
          PInt (if dict_get_none data ''pv1_input_power'' \<noteq> PNone
                   \<and> pv_positive (dict_get_none data ''pv1_input_power'') then 2 else 0))\<rparr>"
proof -
  from assms obtain pv s1 s2 s3 s4 s5 mode2 s6 where
    0: "py_gt_int (dict_get data ''pv1_input_power'' (PInt 0)) 0 = Inr pv" and
    1: "mppt_set ''/State'' (if pv then PInt 3 else PInt 0) s = (Inr (), s1)" and
    2: "mppt_copy ''/Pv/V'' data ''pv1_input_voltage'' s1 = (Inr (), s2)" and
    3: "mppt_copy ''/Yield/Power'' data ''pv1_input_power'' s2 = (Inr (), s3)" and
    4: "mppt_yield ''/Yield/User'' generated s3 = (Inr (), s4)" and
    5: "mppt_yield ''/Yield/System'' generated s4 = (Inr (), s5)" and
    6: "mpp_operation_mode data s5 = (Inr mode2, s6)" and
    7: "mppt_set ''/MppOperationMode'' mode2 s6 = (Inr u, s')"
    unfolding solar_charger_def by (auto simp add: bnd_Inr lift_Inr)
  have pv: "pv = pv_positive (dict_get data ''pv1_input_power'' (PInt 0))"
    using 0 by (rule py_gt_int_Inr)
  have e1: "s1 = s\<lparr>dbusmppt := (dbusmppt s)(''/State'' \<mapsto> (if pv then PInt 3 else PInt 0))\<rparr>"
    using 1 by (simp add: mppt_set_Inr)
  have e2: "s2 = s1\<lparr>dbusmppt := (dbusmppt s1)(''/Pv/V'' \<mapsto> dict_get data ''pv1_input_voltage'' (the (dbusmppt s1 ''/Pv/V'')))\<rparr>"
    using 2 by (simp add: mppt_copy_Inr)
  have e3: "s3 = s2\<lparr>dbusmppt := (dbusmppt s2)(''/Yield/Power'' \<mapsto> dict_get data ''pv1_input_power'' (the (dbusmppt s2 ''/Yield/Power'')))\<rparr>"
    using 3 by (simp add: mppt_copy_Inr)
  have e4: "s4 = s3\<lparr>dbusmppt := (dbusmppt s3)(''/Yield/User'' \<mapsto> yield_kwh generated (the (dbusmppt s3 ''/Yield/User'')))\<rparr>"
    using mppt_yield_Inr [OF 4] by simp
  have e5: "s5 = s4\<lparr>dbusmppt := (dbusmppt s4)(''/Yield/System'' \<mapsto> yield_kwh generated (the (dbusmppt s4 ''/Yield/System'')))\<rparr>"
    using mppt_yield_Inr [OF 5] by simp
  have e6: "s6 = s5" and m2: "mode2 = PInt (if dict_get_none data ''pv1_input_power'' \<noteq> PNone
                   \<and> pv_positive (dict_get_none data ''pv1_input_power'') then 2 else 0)"
    using mpp_operation_mode_Inr [OF 6] by simp_all
  have e7: "s' = s6\<lparr>dbusmppt := (dbusmppt s6)(''/MppOperationMode'' \<mapsto> mode2)\<rparr>"
    using 7 by (simp add: mppt_set_Inr)
  show ?thesis unfolding e7 e6 e5 e4 e3 e2 e1 m2 pv by simp
qed

lemma misc_Inr:
  assumes "misc data s = (Inr u, s')"
  shows "s' = s\<lparr>dbusinverter := (dbusinverter s)
           (''/Temperature'' \<mapsto> dict_get data ''inverter_heat_sink_temperature'' (the (dbusinverter s ''/Temperature''))),
          dbusmppt := (dbusmppt s)
           (''/DC/0/Temperature'' \<mapsto> dict_get data ''mppt1_charger_temperature'' (the (dbusmppt s ''/DC/0/Temperature'')))\<rparr>"
  using assms unfolding misc_def
  by (auto simp add: bnd_Inr inv_copy_Inr mppt_copy_Inr)

lemma merge_PI18_Inr:
  assumes "merge_PI18 generated data mode rated s = (Inr b, s')"
  shows "s' = s\<lparr>dbusinverter := stored (queued_updates s) (polled_inverter data mode (dbusinverter s)),
                 dbusmppt := stored (queued_updates s) (polled_charger generated data (dbusmppt s)),
                 queued_updates := []\<rparr>"
proof -
  from assms obtain s1 s2 s3 s4 where
    1: "inverter_state mode s = (Inr (), s1)" and
    2: "read_data data s1 = (Inr (), s2)" and
    3: "solar_charger generated data s2 = (Inr (), s3)" and
    4: "misc data s3 = (Inr (), s4)" and
    5: "updateInternal s4 = (Inr (), s')"
    unfolding merge_PI18_def by (auto simp add: bnd_Inr ret_Inr)
  note e1 = inverter_state_Inr [OF 1]
  note e2 = read_data_Inr [OF 2]
  note e3 = solar_charger_Inr [OF 3]
  note e4 = misc_Inr [OF 4]
  have i: "dbusinverter s4 = polled_inverter data mode (dbusinverter s)"
    unfolding e4 e3 e2 e1 polled_inverter_def by simp
  have m: "dbusmppt s4 = polled_charger generated data (dbusmppt s)"
    unfolding e4 e3 e2 e1 polled_charger_def by simp
  have q: "queued_updates s4 = queued_updates s"
    unfolding e4 e3 e2 e1 by simp
  have r: "s4\<lparr>dbusinverter := x, dbusmppt := y, queued_updates := z\<rparr>
         = s\<lparr>dbusinverter := x, dbusmppt := y, queued_updates := z\<rparr>" for x y z
    unfolding e4 e3 e2 e1 by simp
  show ?thesis using updateInternal_Inr [OF 5] unfolding i m q r .
qed


lemma run_four:
  assumes "dev ''PI18'' ''ET'' = Inr generated" and "dev ''PI18'' ''GS'' = Inr data"
    and "dev ''PI18'' ''MOD'' = Inr mode" and "dev ''PI18'' ''PIRI'' = Inr rated"
  shows "runInverterCommands dev [''ET'', ''GS'', ''MOD'', ''PIRI''] ''PI18'' s =
           (Inr [generated, data, mode, rated],
            s\<lparr>sent := sent s @ [(''PI18'', ''ET''), (''PI18'', ''GS''), (''PI18'', ''MOD''),
                                  (''PI18'', ''PIRI'')]\<rparr>)"
  by (simp add: runInverterCommands_def Let_def assms)

lemma run_each_frame:
  "run_each dev protocol cs s = (r, s') \<Longrightarrow>
     dbusinverter s' = dbusinverter s \<and> dbusmppt s' = dbusmppt s
     \<and> queued_updates s' = queued_updates s \<and> logged s' = logged s
     \<and> mainloop_quit s' = mainloop_quit s"
proof (induction cs arbitrary: s r s')
  case Nil
  then show ?case by auto
next
  case (Cons c cs)
  show ?case
  proof (cases "dev protocol c")
    case (Inl e)
    with Cons.prems show ?thesis by (auto simp add: Let_def)
  next
    case (Inr a)
    obtain r2 s2 where t: "run_each dev protocol cs (s\<lparr>sent := sent s @ [(protocol, c)]\<rparr>) = (r2, s2)"
      by (cases "run_each dev protocol cs (s\<lparr>sent := sent s @ [(protocol, c)]\<rparr>)")
    from Cons.prems Inr t have "s' = s2" by (auto simp add: Let_def split: sum.splits)
    with Cons.IH [OF t] show ?thesis by simp
  qed
qed

lemma store_queued_ok:
  "\<forall>p \<in> fst ` set q. dbusinverter s p \<noteq> None \<and> dbusmppt s p \<noteq> None \<Longrightarrow>
     store_queued q s =
       (Inr (), s\<lparr>dbusinverter := stored q (dbusinverter s), dbusmppt := stored q (dbusmppt s)\<rparr>)"
proof (induction q arbitrary: s)
  case Nil
  show ?case by (simp add: ret_def stored_Nil)
next
  case (Cons a q)
  obtain p v where a: "a = (p, v)" by (cases a)
  define s2 where "s2 = s\<lparr>dbusinverter := (dbusinverter s)(p \<mapsto> v),
                           dbusmppt := (dbusmppt s)(p \<mapsto> v)\<rparr>"
  from Cons.prems have pi: "dbusinverter s p \<noteq> None" and pm: "dbusmppt s p \<noteq> None"
    by (simp_all add: a)
  have i: "dbusinverter s2 = (dbusinverter s)(p \<mapsto> v)" by (simp add: s2_def)
  have m: "dbusmppt s2 = (dbusmppt s)(p \<mapsto> v)" by (simp add: s2_def)
  have pre: "\<forall>p \<in> fst ` set q. dbusinverter s2 p \<noteq> None \<and> dbusmppt s2 p \<noteq> None"
    using Cons.prems by (auto simp add: i m)
  have step: "store_queued ((p, v) # q) s = store_queued q s2"
    using pi pm by (auto simp add: s2_def bnd_def inv_set_def mppt_set_def setitem_def)
  have "store_queued q s2 =
      (Inr (), s2\<lparr>dbusinverter := stored q (dbusinverter s2), dbusmppt := stored q (dbusmppt s2)\<rparr>)"
    by (rule Cons.IH [OF pre])
  also have "s2\<lparr>dbusinverter := stored q (dbusinverter s2), dbusmppt := stored q (dbusmppt s2)\<rparr>
      = s\<lparr>dbusinverter := stored q (dbusinverter s2), dbusmppt := stored q (dbusmppt s2)\<rparr>"
    by (simp add: s2_def)
  finally show ?case unfolding step a stored_Cons i m .
qed

lemma updateInternal_ok:
  "\<forall>p \<in> fst ` set (queued_updates s). dbusinverter s p \<noteq> None \<and> dbusmppt s p \<noteq> None \<Longrightarrow>
     updateInternal s =
       (Inr (), s\<lparr>dbusinverter := stored (queued_updates s) (dbusinverter s),
                   dbusmppt := stored (queued_updates s) (dbusmppt s), queued_updates := []\<rparr>)"
  by (simp add: updateInternal_def bnd_def store_queued_ok)

lemma stored_apply:
  "stored q d p = (case map_of (rev q) p of None \<Rightarrow> d p | Some v \<Rightarrow> Some v)"
proof (induction q arbitrary: d)
  case Nil
  show ?case by (simp add: stored_Nil)
next
  case (Cons a q)
  obtain p' v where a: "a = (p', v)" by (cases a)
  show ?case
    unfolding a stored_Cons Cons.IH
    by (auto simp add: map_of_append split: option.splits)
qed

lemma stored_other: "p \<notin> fst ` set q \<Longrightarrow> stored q d p = d p"
proof -
  assume "p \<notin> fst ` set q"
  then have "map_of (rev q) p = None" by (simp add: map_of_eq_None_iff)
  then show ?thesis by (simp add: stored_apply)
qed

lemma update_PI18_success:
  assumes "dev ''PI18'' ''ET'' = Inr generated" and "dev ''PI18'' ''GS'' = Inr data"
    and "dev ''PI18'' ''MOD'' = Inr mode" and "dev ''PI18'' ''PIRI'' = Inr rated"
    and ok: "fst (update_PI18 dev s) = Inr b"
  shows "snd (update_PI18 dev s) =
           s\<lparr>dbusinverter := stored (queued_updates s) (polled_inverter data mode (dbusinverter s)),
             dbusmppt := stored (queued_updates s) (polled_charger generated data (dbusmppt s)),
             queued_updates := [],
             sent := sent s @ [(''PI18'', ''ET''), (''PI18'', ''GS''), (''PI18'', ''MOD''),
                               (''PI18'', ''PIRI'')]\<rparr>"
proof -
  define s1 where "s1 = s\<lparr>sent := sent s @ [(''PI18'', ''ET''), (''PI18'', ''GS''),
                                   (''PI18'', ''MOD''), (''PI18'', ''PIRI'')]\<rparr>"
  have run: "runInverterCommands dev [''ET'', ''GS'', ''MOD'', ''PIRI''] ''PI18'' s =
               (Inr [generated, data, mode, rated], s1)"
    unfolding s1_def using assms(1-4) by (rule run_four)
  have u: "update_PI18 dev s = merge_PI18 generated data mode rated s1"
    by (simp add: update_PI18_def run)
  obtain s' where m: "merge_PI18 generated data mode rated s1 = (Inr b, s')"
    using ok unfolding u by (cases "merge_PI18 generated data mode rated s1") simp
  have "snd (update_PI18 dev s) = s'" by (simp add: u m)
  also have "s' = s1\<lparr>dbusinverter := stored (queued_updates s1) (polled_inverter data mode (dbusinverter s1)),
                 dbusmppt := stored (queued_updates s1) (polled_charger generated data (dbusmppt s1)),
                 queued_updates := []\<rparr>"
    using m by (rule merge_PI18_Inr)
  also have "\<dots> = s\<lparr>dbusinverter := stored (queued_updates s) (polled_inverter data mode (dbusinverter s)),
             dbusmppt := stored (queued_updates s) (polled_charger generated data (dbusmppt s)),
             queued_updates := [],
             sent := sent s @ [(''PI18'', ''ET''), (''PI18'', ''GS''), (''PI18'', ''MOD''),
                               (''PI18'', ''PIRI'')]\<rparr>"
    by (simp add: s1_def)
  finally show ?thesis .
qed

lemma update_PI18_failure:
  assumes fail: "fst (runInverterCommands dev [''ET'', ''GS'', ''MOD'', ''PIRI''] ''PI18'' s) = Inl e"
    and paths: "\<forall>p \<in> fst ` set (queued_updates s). dbusinverter s p \<noteq> None \<and> dbusmppt s p \<noteq> None"
  shows "fst (update_PI18 dev s) = Inr True
         \<and> dbusinverter (snd (update_PI18 dev s)) = stored (queued_updates s) (dbusinverter s)
         \<and> dbusmppt (snd (update_PI18 dev s)) = stored (queued_updates s) (dbusmppt s)
         \<and> queued_updates (snd (update_PI18 dev s)) = []"
proof -
  obtain s1 where run: "runInverterCommands dev [''ET'', ''GS'', ''MOD'', ''PIRI''] ''PI18'' s = (Inl e, s1)"
    using fail by (cases "runInverterCommands dev [''ET'', ''GS'', ''MOD'', ''PIRI''] ''PI18'' s") simp
  from run have "run_each dev ''PI18'' [''ET'', ''GS'', ''MOD'', ''PIRI''] s = (Inl e, s1)"
    by (simp add: runInverterCommands_def)
  note f = run_each_frame [OF this]
  define s2 where "s2 = s1\<lparr>logged := logged s1 @ [Warning ''Error in update PI18 loop.'']\<rparr>"
  have i2: "dbusinverter s2 = dbusinverter s" and m2: "dbusmppt s2 = dbusmppt s"
    and q2: "queued_updates s2 = queued_updates s"
    using f by (simp_all add: s2_def)
  have p2: "\<forall>p \<in> fst ` set (queued_updates s2). dbusinverter s2 p \<noteq> None \<and> dbusmppt s2 p \<noteq> None"
    unfolding i2 m2 q2 by (rule paths)
  have u: "update_PI18 dev s =
      (Inr True, s2\<lparr>dbusinverter := stored (queued_updates s2) (dbusinverter s2),
                   dbusmppt := stored (queued_updates s2) (dbusmppt s2), queued_updates := []\<rparr>)"
    by (simp add: update_PI18_def run bnd_def logging_def ret_def s2_def [symmetric]
          updateInternal_ok [OF p2])
  show ?thesis unfolding u by (simp add: i2 m2 q2)
qed

text \<open>
  Claim C10. At the merge point every queued pair is stored under its path in both trees,
  the inverter's and the charger's, the later pair winning where a path is queued twice,
  every other item is left alone, and the queue is emptied. The paths of the queue have
  to exist in both trees, as \<^verbatim>\<open>/Mode\<close> does.
\<close>

theorem updateInternal_stores_in_both:
  assumes "\<forall>p \<in> fst ` set (queued_updates s). dbusinverter s p \<noteq> None \<and> dbusmppt s p \<noteq> None"
  shows "fst (updateInternal s) = Inr ()
         \<and> queued_updates (snd (updateInternal s)) = []
         \<and> (\<forall>p. dbusinverter (snd (updateInternal s)) p =
                (case map_of (rev (queued_updates s)) p of
                   None \<Rightarrow> dbusinverter s p | Some v \<Rightarrow> Some v))
         \<and> (\<forall>p. dbusmppt (snd (updateInternal s)) p =
                (case map_of (rev (queued_updates s)) p of
                   None \<Rightarrow> dbusmppt s p | Some v \<Rightarrow> Some v))
         \<and> sent (snd (updateInternal s)) = sent s"
  unfolding updateInternal_ok [OF assms] by (simp add: stored_apply)

theorem updateInternal_stores_in_both_witness:
  "dbusinverter (snd (updateInternal (created\<lparr>queued_updates := [(''/Mode'', PInt 4)]\<rparr>))) ''/Mode''
     = Some (PInt 4)
   \<and> dbusmppt (snd (updateInternal (created\<lparr>queued_updates := [(''/Mode'', PInt 4)]\<rparr>))) ''/Mode''
     = Some (PInt 4)
   \<and> queued_updates (snd (updateInternal (created\<lparr>queued_updates := [(''/Mode'', PInt 4)]\<rparr>))) = []"
proof -
  define s where "s = created\<lparr>queued_updates := [(''/Mode'', PInt 4)]\<rparr>"
  have q: "queued_updates s = [(''/Mode'', PInt 4)]" by (simp add: s_def)
  have i: "dbusinverter s ''/Mode'' \<noteq> None" unfolding s_def by code_simp
  have m: "dbusmppt s ''/Mode'' \<noteq> None" unfolding s_def by code_simp
  have h: "\<forall>p \<in> fst ` set (queued_updates s). dbusinverter s p \<noteq> None \<and> dbusmppt s p \<noteq> None"
    using i m by (simp add: q)
  note t = updateInternal_stores_in_both [OF h]
  from t have a: "queued_updates (snd (updateInternal s)) = []" by blast
  from t have "dbusinverter (snd (updateInternal s)) ''/Mode'' =
                (case map_of (rev (queued_updates s)) ''/Mode'' of
                   None \<Rightarrow> dbusinverter s ''/Mode'' | Some v \<Rightarrow> Some v)" by blast
  then have b: "dbusinverter (snd (updateInternal s)) ''/Mode'' = Some (PInt 4)" by (simp add: q)
  from t have "dbusmppt (snd (updateInternal s)) ''/Mode'' =
                (case map_of (rev (queued_updates s)) ''/Mode'' of
                   None \<Rightarrow> dbusmppt s ''/Mode'' | Some v \<Rightarrow> Some v)" by blast
  then have c: "dbusmppt (snd (updateInternal s)) ''/Mode'' = Some (PInt 4)" by (simp add: q)
  from a b c show ?thesis unfolding s_def by blast
qed

text \<open>
  Claim C6. On a poll cycle that runs to its end the inverter's \<^verbatim>\<open>/State\<close> is the code of
  the decoded working mode: 9 for \<^verbatim>\<open>Battery mode\<close>, 2 for \<^verbatim>\<open>Fault mode\<close>, 0 for anything
  else, whatever the other records hold. (No queued pair is for \<^verbatim>\<open>/State\<close>: the only
  path ever queued is \<^verbatim>\<open>/Mode\<close>.)
\<close>

theorem state_from_working_mode:
  assumes "dev ''PI18'' ''ET'' = Inr generated" and "dev ''PI18'' ''GS'' = Inr data"
    and "dev ''PI18'' ''MOD'' = Inr mode" and "dev ''PI18'' ''PIRI'' = Inr rated"
    and "fst (update_PI18 dev s) = Inr b"
    and "''/State'' \<notin> fst ` set (queued_updates s)"
    and "mode ''working_mode'' = Some w"
  shows "dbusinverter (snd (update_PI18 dev s)) ''/State'' =
           Some (PInt (if w = PStr ''Battery mode'' then 9
                       else if w = PStr ''Fault mode'' then 2 else 0))"
proof -
  have "dbusinverter (snd (update_PI18 dev s)) ''/State'' =
          polled_inverter data mode (dbusinverter s) ''/State''"
    unfolding update_PI18_success [OF assms(1-5)] using assms(6) by (simp add: stored_other)
  also have "\<dots> = Some (PInt (run_state w))"
    by (simp add: polled_inverter_def dict_get_def assms(7))
  finally show ?thesis by (simp add: run_state_def)
qed

theorem state_from_working_mode_witness:
  "dbusinverter (snd (update_PI18
      (answering ''MOD'' [''working_mode'' \<mapsto> PStr ''Fault mode''] scenario) created)) ''/State''
     = Some (PInt 2)"
proof -
  define dev where "dev = answering ''MOD'' [''working_mode'' \<mapsto> PStr ''Fault mode''] scenario"
  have 1: "dev ''PI18'' ''ET'' = Inr [''total_generated_energy'' \<mapsto> PInt 15000]"
    by (simp add: dev_def answering_def scenario_def)
  have 2: "dev ''PI18'' ''GS'' = Inr [''battery_voltage'' \<mapsto> PFloat (521 / 10),
             ''ac_output_voltage'' \<mapsto> PFloat 230,
             ''ac_output_active_power'' \<mapsto> PInt 500,
             ''pv1_input_power'' \<mapsto> PInt 120,
             ''pv1_input_voltage'' \<mapsto> PInt 60]"
    by (simp add: dev_def answering_def scenario_def)
  have 3: "dev ''PI18'' ''MOD'' = Inr [''working_mode'' \<mapsto> PStr ''Fault mode'']"
    by (simp add: dev_def answering_def)
  have 4: "dev ''PI18'' ''PIRI'' = Inr Map.empty"
    by (simp add: dev_def answering_def scenario_def)
  have 5: "fst (update_PI18 dev created) = Inr True" unfolding dev_def by code_simp
  have 6: "''/State'' \<notin> fst ` set (queued_updates created)" by (simp add: created_def)
  have 7: "[''working_mode'' \<mapsto> PStr ''Fault mode''] ''working_mode'' = Some (PStr ''Fault mode'')"
    by simp
  show ?thesis using state_from_working_mode [OF 1 2 3 4 5 6 7] unfolding dev_def by simp
qed

text \<open>
  Claim C1. The guard of the derived output current is never true: \<^verbatim>\<open>0 & P\<close> is 0 for an
  integer power, so the chained comparison ends in \<^verbatim>\<open>0 != 0\<close>. In the end-to-end
  scenario, with 230.0 V and 500 W, the cycle runs to its end and \<^verbatim>\<open>/Ac/Out/L1/I\<close> keeps
  its initial 0 where the quotient is 50/23.
\<close>

theorem output_current_not_derived:
  "fst (update_PI18 scenario created) = Inr True
   \<and> dbusinverter (snd (update_PI18 scenario created)) ''/Ac/Out/L1/V'' = Some (PFloat 230)
   \<and> dbusinverter (snd (update_PI18 scenario created)) ''/Ac/Out/L1/P'' = Some (PInt 500)
   \<and> fst (output_current_guard (snd (update_PI18 scenario created))) = Inr False
   \<and> dbusinverter (snd (update_PI18 scenario created)) ''/Ac/Out/L1/I'' = Some (PInt 0)
   \<and> py_truediv (PInt 500) (PFloat 230) = Inr (PFloat (50 / 23))"
  by code_simp

text \<open>
  Claim C5. With the energy total in the record both yields are the total divided by
  1000 (15000 gives 15). Without it the old yield is not kept: it is divided by 1000 as
  well, so 15 becomes 3/200 on the next cycle.
\<close>

theorem yield_fallback_rescaled:
  "dbusmppt (snd (update_PI18 scenario created)) ''/Yield/User'' = Some (PFloat 15)
   \<and> dbusmppt (snd (update_PI18 scenario created)) ''/Yield/System'' = Some (PFloat 15)
   \<and> fst (update_PI18 (answering ''ET'' Map.empty scenario) (snd (update_PI18 scenario created)))
       = Inr True
   \<and> dbusmppt (snd (update_PI18 (answering ''ET'' Map.empty scenario)
                      (snd (update_PI18 scenario created)))) ''/Yield/User''
       = Some (PFloat (3 / 200))
   \<and> dbusmppt (snd (update_PI18 (answering ''ET'' Map.empty scenario)
                      (snd (update_PI18 scenario created)))) ''/Yield/System''
       = Some (PFloat (3 / 200))"
  by code_simp

text \<open>
  Claim C2, as stated, fails: with a pair in the queue a cycle whose second command fails
  still changes the published state, here \<^verbatim>\<open>/Mode\<close> from 0 to 4.
\<close>

theorem failed_cycle_changes_state:
  "fst (runInverterCommands (failing ''GS'' scenario) [''ET'', ''GS'', ''MOD'', ''PIRI''] ''PI18''
          (created\<lparr>queued_updates := [(''/Mode'', PInt 4)]\<rparr>)) = Inl DeviceError
   \<and> dbusinverter (created\<lparr>queued_updates := [(''/Mode'', PInt 4)]\<rparr>) ''/Mode'' = Some (PInt 0)
   \<and> dbusinverter (snd (update_PI18 (failing ''GS'' scenario)
                           (created\<lparr>queued_updates := [(''/Mode'', PInt 4)]\<rparr>))) ''/Mode''
       = Some (PInt 4)"
proof -
  have 1: "fst (runInverterCommands (failing ''GS'' scenario) [''ET'', ''GS'', ''MOD'', ''PIRI'']
                 ''PI18'' (created\<lparr>queued_updates := [(''/Mode'', PInt 4)]\<rparr>)) = Inl DeviceError"
    by (simp add: runInverterCommands_def failing_def scenario_def Let_def)
  have 2: "dbusinverter (created\<lparr>queued_updates := [(''/Mode'', PInt 4)]\<rparr>) ''/Mode'' = Some (PInt 0)"
    by code_simp
  have 3: "dbusinverter (snd (update_PI18 (failing ''GS'' scenario)
                           (created\<lparr>queued_updates := [(''/Mode'', PInt 4)]\<rparr>))) ''/Mode''
       = Some (PInt 4)"
    by code_simp
  from 1 2 3 show ?thesis by blast
qed

text \<open>
  Claim C2, amended. Take a state in which every queued path exists in both trees (as
  \<^verbatim>\<open>/Mode\<close>, the only path that is ever queued, does) and a cycle whose batch of commands
  raises. The cycle returns \<^verbatim>\<open>True\<close> and empties the queue, and each tree holds at every
  path the value of the last queued pair for that path, or its old value when no pair is
  queued for it. So a tree after the cycle is the tree before it exactly when every
  queued path already held the value of its last queued pair, as with an empty queue.
\<close>

theorem failed_cycle_stores_queue:
  assumes "fst (runInverterCommands dev [''ET'', ''GS'', ''MOD'', ''PIRI''] ''PI18'' s) = Inl e"
    and "\<forall>p \<in> fst ` set (queued_updates s). dbusinverter s p \<noteq> None \<and> dbusmppt s p \<noteq> None"
  shows "fst (update_PI18 dev s) = Inr True
         \<and> queued_updates (snd (update_PI18 dev s)) = []
         \<and> (\<forall>p. dbusinverter (snd (update_PI18 dev s)) p =
                  (case map_of (rev (queued_updates s)) p of
                     None \<Rightarrow> dbusinverter s p | Some v \<Rightarrow> Some v))
         \<and> (\<forall>p. dbusmppt (snd (update_PI18 dev s)) p =
                  (case map_of (rev (queued_updates s)) p of
                     None \<Rightarrow> dbusmppt s p | Some v \<Rightarrow> Some v))
         \<and> (dbusinverter (snd (update_PI18 dev s)) = dbusinverter s \<longleftrightarrow>
              (\<forall>p v. map_of (rev (queued_updates s)) p = Some v \<longrightarrow> dbusinverter s p = Some v))
         \<and> (dbusmppt (snd (update_PI18 dev s)) = dbusmppt s \<longleftrightarrow>
              (\<forall>p v. map_of (rev (queued_updates s)) p = Some v \<longrightarrow> dbusmppt s p = Some v))
         \<and> (queued_updates s = [] \<longrightarrow>
              dbusinverter (snd (update_PI18 dev s)) = dbusinverter s
              \<and> dbusmppt (snd (update_PI18 dev s)) = dbusmppt s)"
proof -
  note f = update_PI18_failure [OF assms]
  have 1: "fst (update_PI18 dev s) = Inr True" using f by (rule conjunct1)
  have i: "dbusinverter (snd (update_PI18 dev s)) = stored (queued_updates s) (dbusinverter s)"
    using f [THEN conjunct2] by (rule conjunct1)
  have m: "dbusmppt (snd (update_PI18 dev s)) = stored (queued_updates s) (dbusmppt s)"
    using f [THEN conjunct2, THEN conjunct2] by (rule conjunct1)
  have 2: "queued_updates (snd (update_PI18 dev s)) = []"
    using f [THEN conjunct2, THEN conjunct2] by (rule conjunct2)
  have same: "(stored q d = d) = (\<forall>p v. map_of (rev q) p = Some v \<longrightarrow> d p = Some v)" for q d
  proof
    assume a: "stored q d = d"
    show "\<forall>p v. map_of (rev q) p = Some v \<longrightarrow> d p = Some v"
    proof (intro allI impI)
      fix p v assume b: "map_of (rev q) p = Some v"
      have "stored q d p = Some v" by (simp add: stored_apply b)
      then show "d p = Some v" unfolding a .
    qed
  next
    assume a: "\<forall>p v. map_of (rev q) p = Some v \<longrightarrow> d p = Some v"
    show "stored q d = d"
    proof
      fix p
      show "stored q d p = d p"
      proof (cases "map_of (rev q) p")
        case None
        then show ?thesis by (simp add: stored_apply)
      next
        case (Some v)
        with a have "d p = Some v" by blast
        then show ?thesis by (simp add: stored_apply Some)
      qed
    qed
  qed
  have 3: "\<forall>p. dbusinverter (snd (update_PI18 dev s)) p =
                  (case map_of (rev (queued_updates s)) p of
                     None \<Rightarrow> dbusinverter s p | Some v \<Rightarrow> Some v)"
    unfolding i by (simp add: stored_apply)
  have 4: "\<forall>p. dbusmppt (snd (update_PI18 dev s)) p =
                  (case map_of (rev (queued_updates s)) p of
                     None \<Rightarrow> dbusmppt s p | Some v \<Rightarrow> Some v)"
    unfolding m by (simp add: stored_apply)
  have 5: "dbusinverter (snd (update_PI18 dev s)) = dbusinverter s \<longleftrightarrow>
              (\<forall>p v. map_of (rev (queued_updates s)) p = Some v \<longrightarrow> dbusinverter s p = Some v)"
    unfolding i by (rule same)
  have 6: "dbusmppt (snd (update_PI18 dev s)) = dbusmppt s \<longleftrightarrow>
              (\<forall>p v. map_of (rev (queued_updates s)) p = Some v \<longrightarrow> dbusmppt s p = Some v)"
    unfolding m by (rule same)
  have 7: "queued_updates s = [] \<longrightarrow>
              dbusinverter (snd (update_PI18 dev s)) = dbusinverter s
              \<and> dbusmppt (snd (update_PI18 dev s)) = dbusmppt s"
    unfolding i m by (simp add: stored_Nil)
  show ?thesis using 1 2 3 4 5 6 7 by (intro conjI)
qed

theorem failed_cycle_stores_queue_witness:
  "fst (runInverterCommands (failing ''GS'' scenario) [''ET'', ''GS'', ''MOD'', ''PIRI''] ''PI18''
          (created\<lparr>queued_updates := [(''/Mode'', PInt 4)]\<rparr>)) = Inl DeviceError
   \<and> queued_updates (created\<lparr>queued_updates := [(''/Mode'', PInt 4)]\<rparr>) = [(''/Mode'', PInt 4)]
   \<and> dbusinverter (created\<lparr>queued_updates := [(''/Mode'', PInt 4)]\<rparr>) ''/Mode'' = Some (PInt 0)
   \<and> dbusmppt (created\<lparr>queued_updates := [(''/Mode'', PInt 4)]\<rparr>) ''/Mode'' = Some (PInt 0)
   \<and> fst (update_PI18 (failing ''GS'' scenario)
            (created\<lparr>queued_updates := [(''/Mode'', PInt 4)]\<rparr>)) = Inr True
   \<and> queued_updates (snd (update_PI18 (failing ''GS'' scenario)
            (created\<lparr>queued_updates := [(''/Mode'', PInt 4)]\<rparr>))) = []
   \<and> dbusmppt (snd (update_PI18 (failing ''GS'' scenario)
            (created\<lparr>queued_updates := [(''/Mode'', PInt 4)]\<rparr>))) ''/Mode'' = Some (PInt 4)
   \<and> dbusinverter (snd (update_PI18 (failing ''GS'' scenario)
            (created\<lparr>queued_updates := [(''/Mode'', PInt 4)]\<rparr>))) ''/State''
       = dbusinverter created ''/State''"
proof -
  define s0 where "s0 = created\<lparr>queued_updates := [(''/Mode'', PInt 4)]\<rparr>"
  have 1: "fst (runInverterCommands (failing ''GS'' scenario) [''ET'', ''GS'', ''MOD'', ''PIRI'']
                 ''PI18'' s0) = Inl DeviceError"
    by (simp add: runInverterCommands_def failing_def scenario_def Let_def)
  have q: "queued_updates s0 = [(''/Mode'', PInt 4)]" by (simp add: s0_def)
  have i: "dbusinverter s0 = dbusinverter created" by (simp add: s0_def)
  have m: "dbusmppt s0 = dbusmppt created" by (simp add: s0_def)
  have ci: "dbusinverter created ''/Mode'' = Some (PInt 0)" by code_simp
  have cm: "dbusmppt created ''/Mode'' = Some (PInt 0)" by code_simp
  have 2: "\<forall>p \<in> fst ` set (queued_updates s0). dbusinverter s0 p \<noteq> None \<and> dbusmppt s0 p \<noteq> None"
    unfolding q i m by (simp add: ci cm)
  note t = failed_cycle_stores_queue [OF 1 2]
  have 3: "fst (update_PI18 (failing ''GS'' scenario) s0) = Inr True" using t by (rule conjunct1)
  have 4: "queued_updates (snd (update_PI18 (failing ''GS'' scenario) s0)) = []"
    using t [THEN conjunct2] by (rule conjunct1)
  have ai: "\<forall>p. dbusinverter (snd (update_PI18 (failing ''GS'' scenario) s0)) p =
                  (case map_of (rev (queued_updates s0)) p of
                     None \<Rightarrow> dbusinverter s0 p | Some v \<Rightarrow> Some v)"
    using t [THEN conjunct2, THEN conjunct2] by (rule conjunct1)
  have am: "\<forall>p. dbusmppt (snd (update_PI18 (failing ''GS'' scenario) s0)) p =
                  (case map_of (rev (queued_updates s0)) p of
                     None \<Rightarrow> dbusmppt s0 p | Some v \<Rightarrow> Some v)"
    using t [THEN conjunct2, THEN conjunct2, THEN conjunct2] by (rule conjunct1)
  have 5: "dbusmppt (snd (update_PI18 (failing ''GS'' scenario) s0)) ''/Mode'' = Some (PInt 4)"
    unfolding am [THEN spec] q by simp
  have 6: "dbusinverter (snd (update_PI18 (failing ''GS'' scenario) s0)) ''/State''
             = dbusinverter created ''/State''"
    unfolding ai [THEN spec] q i by simp
  show ?thesis using 1 q ci [folded i] cm [folded m] 3 4 5 6 unfolding s0_def by (intro conjI)
qed

section \<open>Writes to the mode path\<close>







text \<open>
  Claim C3, as stated, fails: the write of 7 to \<^verbatim>\<open>/Mode\<close> is accepted (the handler returns
  \<^verbatim>\<open>True\<close>), the pair is queued, and the next poll cycle publishes 7 as \<^verbatim>\<open>/Mode\<close> in both
  trees.
\<close>

theorem unknown_mode_is_queued:
  "fst (change scenario ''/Mode'' (PInt 7) created) = Inr True
   \<and> queued_updates (snd (change scenario ''/Mode'' (PInt 7) created)) = [(''/Mode'', PInt 7)]
   \<and> dbusinverter (snd (update scenario (snd (change scenario ''/Mode'' (PInt 7) created))))
       ''/Mode'' = Some (PInt 7)
   \<and> dbusmppt (snd (update scenario (snd (change scenario ''/Mode'' (PInt 7) created))))
       ''/Mode'' = Some (PInt 7)"
proof -
  have 1: "fst (change scenario ''/Mode'' (PInt 7) created) = Inr True" by code_simp
  have 2: "queued_updates (snd (change scenario ''/Mode'' (PInt 7) created)) = [(''/Mode'', PInt 7)]"
    by code_simp
  have 3: "dbusinverter (snd (update scenario (snd (change scenario ''/Mode'' (PInt 7) created))))
       ''/Mode'' = Some (PInt 7)"
    by code_simp
  have 4: "dbusmppt (snd (update scenario (snd (change scenario ''/Mode'' (PInt 7) created))))
       ''/Mode'' = Some (PInt 7)"
    by code_simp
  show ?thesis using 1 2 3 4 by (intro conjI)
qed

text \<open>
  Claim C3, amended. For every value that equals none of 1, 2, 3 and 4, a write of the
  value to \<^verbatim>\<open>/Mode\<close> logs ``setting mode not understood'', sends no command and writes to
  neither tree, but it returns \<^verbatim>\<open>True\<close> and adds the pair of \<^verbatim>\<open>/Mode\<close> and the value at the
  end of the queue; when every queued path and \<^verbatim>\<open>/Mode\<close> exist in both trees the next
  merge stores the value as \<^verbatim>\<open>/Mode\<close> in both trees.
\<close>

theorem unknown_mode_logged_and_queued:
  assumes "\<forall>k \<in> {1, 2, 3, 4}. \<not> py_eq v (PInt k)"
  shows "change_PI18 dev ''/Mode'' v s =
           (Inr True, s\<lparr>logged := logged s @ [Warning ''setting mode not understood ({})''],
                         queued_updates := queued_updates s @ [(''/Mode'', v)]\<rparr>)
         \<and> sent (snd (change_PI18 dev ''/Mode'' v s)) = sent s
         \<and> dbusinverter (snd (change_PI18 dev ''/Mode'' v s)) = dbusinverter s
         \<and> dbusmppt (snd (change_PI18 dev ''/Mode'' v s)) = dbusmppt s
         \<and> ((\<forall>p \<in> insert ''/Mode'' (fst ` set (queued_updates s)).
                dbusinverter s p \<noteq> None \<and> dbusmppt s p \<noteq> None) \<longrightarrow>
              dbusinverter (snd (updateInternal (snd (change_PI18 dev ''/Mode'' v s)))) ''/Mode''
                = Some v
              \<and> dbusmppt (snd (updateInternal (snd (change_PI18 dev ''/Mode'' v s)))) ''/Mode''
                = Some v)"
proof -
  define s1 where "s1 = s\<lparr>logged := logged s @ [Warning ''setting mode not understood ({})''],
                           queued_updates := queued_updates s @ [(''/Mode'', v)]\<rparr>"
  have c: "change_PI18 dev ''/Mode'' v s = (Inr True, s1)"
    using assms by (simp add: change_PI18_def mode_branch_def bnd_def ret_def logging_def s1_def)
  have q: "queued_updates s1 = queued_updates s @ [(''/Mode'', v)]" by (simp add: s1_def)
  have i: "dbusinverter s1 = dbusinverter s" by (simp add: s1_def)
  have m: "dbusmppt s1 = dbusmppt s" by (simp add: s1_def)
  have st: "sent s1 = sent s" by (simp add: s1_def)
  have 5: "(\<forall>p \<in> insert ''/Mode'' (fst ` set (queued_updates s)).
                dbusinverter s p \<noteq> None \<and> dbusmppt s p \<noteq> None) \<longrightarrow>
              dbusinverter (snd (updateInternal s1)) ''/Mode'' = Some v
              \<and> dbusmppt (snd (updateInternal s1)) ''/Mode'' = Some v"
  proof
    assume "\<forall>p \<in> insert ''/Mode'' (fst ` set (queued_updates s)).
                dbusinverter s p \<noteq> None \<and> dbusmppt s p \<noteq> None"
    then have "\<forall>p \<in> fst ` set (queued_updates s1). dbusinverter s1 p \<noteq> None \<and> dbusmppt s1 p \<noteq> None"
      unfolding q i m by simp
    note u = updateInternal_ok [OF this]
    show "dbusinverter (snd (updateInternal s1)) ''/Mode'' = Some v
              \<and> dbusmppt (snd (updateInternal s1)) ''/Mode'' = Some v"
      unfolding u q by (simp add: stored_apply)
  qed
  show ?thesis unfolding c using 5 by (simp add: i m st) (simp add: s1_def)
qed

theorem unknown_mode_logged_and_queued_witness:
  "queued_updates created = []
   \<and> dbusinverter created ''/Mode'' = Some (PInt 0) \<and> dbusmppt created ''/Mode'' = Some (PInt 0)
   \<and> fst (change_PI18 scenario ''/Mode'' (PInt 7) created) = Inr True
   \<and> sent (snd (change_PI18 scenario ''/Mode'' (PInt 7) created)) = []
   \<and> dbusinverter (snd (updateInternal (snd (change_PI18 scenario ''/Mode'' (PInt 7) created))))
       ''/Mode'' = Some (PInt 7)
   \<and> dbusmppt (snd (updateInternal (snd (change_PI18 scenario ''/Mode'' (PInt 7) created))))
       ''/Mode'' = Some (PInt 7)"
proof -
  have h: "\<forall>k \<in> {1, 2, 3, 4}. \<not> py_eq (PInt 7) (PInt k)" by simp
  have sc: "sent created = []" by (simp add: created_def)
  have qc: "queued_updates created = []" by (simp add: created_def)
  have ci: "dbusinverter created ''/Mode'' = Some (PInt 0)" by code_simp
  have cm: "dbusmppt created ''/Mode'' = Some (PInt 0)" by code_simp
  have p: "\<forall>p \<in> insert ''/Mode'' (fst ` set (queued_updates created)).
         dbusinverter created p \<noteq> None \<and> dbusmppt created p \<noteq> None"
    unfolding qc by (simp add: ci cm)
  note t = unknown_mode_logged_and_queued [OF h, of scenario created]
  have e: "change_PI18 scenario ''/Mode'' (PInt 7) created =
           (Inr True, created\<lparr>logged := logged created @ [Warning ''setting mode not understood ({})''],
                         queued_updates := queued_updates created @ [(''/Mode'', PInt 7)]\<rparr>)"
    using t by (rule conjunct1)
  have 1: "fst (change_PI18 scenario ''/Mode'' (PInt 7) created) = Inr True"
    unfolding e by simp
  have 2: "sent (snd (change_PI18 scenario ''/Mode'' (PInt 7) created)) = sent created"
    using t [THEN conjunct2] by (rule conjunct1)
  have 3: "dbusinverter (snd (updateInternal (snd (change_PI18 scenario ''/Mode'' (PInt 7) created))))
              ''/Mode'' = Some (PInt 7)
           \<and> dbusmppt (snd (updateInternal (snd (change_PI18 scenario ''/Mode'' (PInt 7) created))))
              ''/Mode'' = Some (PInt 7)"
    using t [THEN conjunct2, THEN conjunct2, THEN conjunct2, THEN conjunct2] p by (rule mp)
  have 4: "dbusinverter (snd (updateInternal (snd (change_PI18 scenario ''/Mode'' (PInt 7) created))))
              ''/Mode'' = Some (PInt 7)"
    using 3 by (rule conjunct1)
  have 5: "dbusmppt (snd (updateInternal (snd (change_PI18 scenario ''/Mode'' (PInt 7) created))))
              ''/Mode'' = Some (PInt 7)"
    using 3 by (rule conjunct2)
  show ?thesis using qc ci cm 1 2 [unfolded sc] 4 5 by (intro conjI)
qed

end
